theory Spec2Isabelle
  imports
    Complex_Main
    "HOL-Library.Multiset"
    "HOL-Library.Char_ord"
    "HOL-Library.List_Lexorder"
    "HOL-Library.Product_Lexorder"
begin

section \<open>Python values, strings, sets and dictionaries\<close>

text \<open>
  The two comparators (\<^verbatim>\<open>fgdcomparator.py\<close> and \<^verbatim>\<open>csgo_to_css_comparison.py\<close>) work
  on the object model of the \<^verbatim>\<open>valvefgd\<close> parser. Attribute values that the code only
  compares with \<^verbatim>\<open>!=\<close> are Python values; exceptions are values of \<open>py_error\<close>.
\<close>

datatype py_error = ValueError | KeyError | StopIteration

datatype pyval = PyNone | PyBool bool | PyInt int | PyStr string

text \<open>Python's \<^verbatim>\<open>==\<close>: a bool is the integer 0 or 1; values of other different types differ.\<close>

fun py_eq :: "pyval \<Rightarrow> pyval \<Rightarrow> bool" where
  "py_eq (PyBool b) (PyInt i) = (i = (if b then 1 else 0))"
| "py_eq (PyInt i) (PyBool b) = (i = (if b then 1 else 0))"
| "py_eq a b = (a = b)"

definition py_ne :: "pyval \<Rightarrow> pyval \<Rightarrow> bool" where
  "py_ne a b = (\<not> py_eq a b)"

text \<open>
  A string is a list of code points below 256. \<^verbatim>\<open>str.lower()\<close> maps such a string
  character by character: the letters A to Z and the upper-case letters of Latin-1
  (\<open>0xC0\<close> to \<open>0xDE\<close> without the multiplication sign \<open>0xD7\<close>) go to the
  character 32 places further on, every other character stays.
\<close>

definition upper_chars :: string where
  "upper_chars =
     ''ABCDEFGHIJKLMNOPQRSTUVWXYZ'' @
       [CHR 0xC0, CHR 0xC1, CHR 0xC2, CHR 0xC3, CHR 0xC4, CHR 0xC5, CHR 0xC6, CHR 0xC7,
        CHR 0xC8, CHR 0xC9, CHR 0xCA, CHR 0xCB, CHR 0xCC, CHR 0xCD, CHR 0xCE, CHR 0xCF,
        CHR 0xD0, CHR 0xD1, CHR 0xD2, CHR 0xD3, CHR 0xD4, CHR 0xD5, CHR 0xD6, CHR 0xD8,
        CHR 0xD9, CHR 0xDA, CHR 0xDB, CHR 0xDC, CHR 0xDD, CHR 0xDE]"

definition lower_chars :: string where
  "lower_chars =
     ''abcdefghijklmnopqrstuvwxyz'' @
       [CHR 0xE0, CHR 0xE1, CHR 0xE2, CHR 0xE3, CHR 0xE4, CHR 0xE5, CHR 0xE6, CHR 0xE7,
        CHR 0xE8, CHR 0xE9, CHR 0xEA, CHR 0xEB, CHR 0xEC, CHR 0xED, CHR 0xEE, CHR 0xEF,
        CHR 0xF0, CHR 0xF1, CHR 0xF2, CHR 0xF3, CHR 0xF4, CHR 0xF5, CHR 0xF6, CHR 0xF8,
        CHR 0xF9, CHR 0xFA, CHR 0xFB, CHR 0xFC, CHR 0xFD, CHR 0xFE]"

definition lower_char :: "char \<Rightarrow> char" where
  "lower_char c = (case map_of (zip upper_chars lower_chars) c of Some d \<Rightarrow> d | None \<Rightarrow> c)"

definition lower :: "string \<Rightarrow> string" where
  "lower s = map lower_char s"

text \<open>\<^verbatim>\<open>str(n)\<close> for an integer, and \<^verbatim>\<open>str(v)\<close> as an f-string formats a value.\<close>

fun str_nat :: "nat \<Rightarrow> string" where
  "str_nat n =
     (if n < 10 then [''0123456789'' ! n]
      else str_nat (n div 10) @ [''0123456789'' ! (n mod 10)])"

definition str_int :: "int \<Rightarrow> string" where
  "str_int i = (if i < 0 then CHR ''-'' # str_nat (nat (- i)) else str_nat (nat i))"

fun py_str :: "pyval \<Rightarrow> string" where
  "py_str PyNone = ''None''"
| "py_str (PyBool b) = (if b then ''True'' else ''False'')"
| "py_str (PyInt i) = str_int i"
| "py_str (PyStr s) = s"

text \<open>
  \<^verbatim>\<open>int(s)\<close> for a string \<open>s\<close>: surrounding whitespace is stripped (the ASCII
  whitespace \<open>0x09\<close> to \<open>0x0D\<close> and the blank, and the Unicode spaces \<open>0x85\<close> and
  \<open>0xA0\<close>; the separators \<open>0x1C\<close> to \<open>0x1F\<close> are not stripped), one sign is
  allowed, then decimal digits, single underscores allowed between digits. \<open>None\<close> is the
  \<^verbatim>\<open>ValueError\<close>.
\<close>

definition is_space :: "char \<Rightarrow> bool" where
  "is_space c = (c \<in> set [CHR 0x09, CHR 0x0A, CHR 0x0B, CHR 0x0C, CHR 0x0D, CHR '' '',
                           CHR 0x85, CHR 0xA0])"

definition strip :: "string \<Rightarrow> string" where
  "strip s = rev (dropWhile is_space (rev (dropWhile is_space s)))"

definition digit_val :: "char \<Rightarrow> nat option" where
  "digit_val c = map_of (zip ''0123456789'' [0, 1, 2, 3, 4, 5, 6, 7, 8, 9]) c"

fun digits_ok :: "string \<Rightarrow> bool" where
  "digits_ok [] = False"
| "digits_ok [c] = (digit_val c \<noteq> None)"
| "digits_ok (c # d # r) =
     (digit_val c \<noteq> None \<and> (if d = CHR ''_'' then digits_ok r else digits_ok (d # r)))"

definition digits_value :: "string \<Rightarrow> nat" where
  "digits_value s =
     fold (\<lambda>c n. case digit_val c of Some d \<Rightarrow> 10 * n + d | None \<Rightarrow> n) s 0"

definition py_int :: "string \<Rightarrow> int option" where
  "py_int s =
     (let t = strip s;
          neg = (t \<noteq> [] \<and> hd t = CHR ''-'');
          u = (if t \<noteq> [] \<and> (hd t = CHR ''-'' \<or> hd t = CHR ''+'') then tl t else t)
      in if digits_ok u
         then Some (if neg then - int (digits_value u) else int (digits_value u))
         else None)"

text \<open>
  A Python \<^verbatim>\<open>set\<close> is represented by a list of its elements; its iteration order is not
  fixed by the language, so every place where the code iterates over a set (a \<^verbatim>\<open>for\<close>
  loop or \<^verbatim>\<open>list(...)\<close>) applies an iteration order taken as a parameter. An iteration
  order lists every element of the set once.
\<close>

definition set_diff :: "'a list \<Rightarrow> 'a list \<Rightarrow> 'a list" where
  "set_diff xs ys = filter (\<lambda>x. x \<notin> set ys) xs"

definition set_inter :: "'a list \<Rightarrow> 'a list \<Rightarrow> 'a list" where
  "set_inter xs ys = filter (\<lambda>x. x \<in> set ys) xs"

definition set_union :: "'a list \<Rightarrow> 'a list \<Rightarrow> 'a list" where
  "set_union xs ys = xs @ ys"

definition valid_order :: "('a list \<Rightarrow> 'a list) \<Rightarrow> bool" where
  "valid_order f = (\<forall>xs. distinct (f xs) \<and> set (f xs) = set xs)"

text \<open>
  A Python \<^verbatim>\<open>dict\<close> is an association list in insertion order: an assignment to a key
  that is present replaces its value in place, a new key is appended.
\<close>

fun dict_set :: "('k \<times> 'v) list \<Rightarrow> 'k \<Rightarrow> 'v \<Rightarrow> ('k \<times> 'v) list" where
  "dict_set [] k v = [(k, v)]"
| "dict_set ((k', v') # d) k v =
     (if k' = k then (k, v) # d else (k', v') # dict_set d k v)"

definition dict_get :: "('k \<times> 'v) list \<Rightarrow> 'k \<Rightarrow> 'v option" where
  "dict_get d k = map_of d k"

definition dict_keys :: "('k \<times> 'v) list \<Rightarrow> 'k list" where
  "dict_keys d = map fst d"

text \<open>The comprehension \<^verbatim>\<open>{key(x): x for x in xs}\<close>: a later entry replaces an earlier one.\<close>

definition dict_of :: "('a \<Rightarrow> 'k) \<Rightarrow> 'a list \<Rightarrow> ('k \<times> 'a) list" where
  "dict_of key xs = fold (\<lambda>x d. dict_set d (key x) x) xs []"

section \<open>The parsed schema\<close>

record FgdEntityPropertyChoice =
  c_value :: string
  c_display_name :: string

record FgdEntityProperty =
  p_name :: string
  p_value_type :: pyval
  p_readonly :: pyval
  p_report :: pyval
  p_display_name :: pyval
  p_default_value :: pyval
  p_description :: pyval
  p_choices :: "FgdEntityPropertyChoice list option"

text \<open>The value of a spawnflag is the text of its value field; the code calls \<^verbatim>\<open>int\<close> on it.\<close>

record FgdEntitySpawnflag =
  sf_value :: string
  sf_display_name :: pyval
  sf_default_value :: pyval

datatype io_class = FgdEntityInput | FgdEntityOutput

record FgdEntityIO =
  io_class :: io_class
  io_name :: string
  io_value_type :: pyval
  io_description :: pyval

text \<open>A definition clause is the dictionary \<^verbatim>\<open>{'name': ..., 'args': [...]}\<close>.\<close>

record FgdDefinition =
  def_name :: string
  def_args :: "string list"

record FgdEntity =
  e_name :: string
  e_class_type :: string
  e_description :: pyval
  e_definitions :: "FgdDefinition list"
  e_properties :: "FgdEntityProperty list"
  e_spawnflags :: "FgdEntitySpawnflag list"
  e_inputs :: "FgdEntityIO list"
  e_outputs :: "FgdEntityIO list"

record 'd FgdEditorData =
  ed_class_type :: string
  ed_name :: "string option"
  ed_data :: 'd

record 'd Fgd =
  entities :: "FgdEntity list"
  editor_data :: "'d FgdEditorData list"

text \<open>The key of a metadata block: \<^verbatim>\<open>(class_type, name)\<close>, or \<^verbatim>\<open>(class_type,)\<close>.\<close>

datatype ed_key = Key1 string | Key2 string string

text \<open>The iteration orders of the sets of names, of flag values and of metadata keys.\<close>

record iter_order =
  str_order :: "string list \<Rightarrow> string list"
  int_order :: "int list \<Rightarrow> int list"
  key_order :: "ed_key list \<Rightarrow> ed_key list"

definition valid_iter :: "iter_order \<Rightarrow> bool" where
  "valid_iter it =
     (valid_order (str_order it) \<and> valid_order (int_order it) \<and> valid_order (key_order it))"

section \<open>The report\<close>

text \<open>
  The diff of a collection is the dictionary with the keys \<^verbatim>\<open>new\<close>, \<^verbatim>\<open>removed\<close> and
  \<^verbatim>\<open>modified\<close>; an attribute that differs is recorded as its name with the old and the
  new value.
\<close>

type_synonym attr_diff = "(string \<times> pyval \<times> pyval) list"

record ('k, 'm) coll_diff =
  new :: "'k list"
  removed :: "'k list"
  modified :: "(string \<times> 'm) list"

datatype prop_change =
  AttrChange pyval pyval
  | ChoicesChange "FgdEntityPropertyChoice list option" "FgdEntityPropertyChoice list option"

type_synonym property_diff = "(string \<times> prop_change) list"

record definitions_diff =
  dd_css :: "FgdDefinition list"
  dd_csgo :: "FgdDefinition list"
  dd_added :: "FgdDefinition list"
  dd_removed :: "FgdDefinition list"

record change_count =
  n_new :: nat
  n_removed :: nat
  n_modified :: nat

record changes_summary =
  cs_properties :: change_count
  cs_inputs :: change_count
  cs_outputs :: change_count
  cs_spawnflags :: change_count

record entity_diff =
  d_class_type :: "(string \<times> string) option"
  d_description :: "(pyval \<times> pyval) option"
  d_definitions :: "definitions_diff option"
  d_properties :: "(string, property_diff) coll_diff option"
  d_spawnflags :: "(FgdEntitySpawnflag, attr_diff) coll_diff option"
  d_inputs :: "(string, attr_diff) coll_diff option"
  d_outputs :: "(string, attr_diff) coll_diff option"
  d_changes_summary :: "changes_summary option"
  d_backward_porting_complexity :: "string option"

record porting_issue =
  i_entity :: string
  i_property :: "string option"
  i_issue :: string
  i_severity :: string

text \<open>
  The report of \<^verbatim>\<open>fgdcomparator.py\<close>. Its \<^verbatim>\<open>metadata\<close> entry (two fixed labels and the
  wall-clock time of the run) is not part of the model.
\<close>

record fgd_report =
  new_entities :: "string list"
  removed_entities :: "string list"
  modified_entities :: "(string \<times> entity_diff) list"
  backward_porting_issues :: "porting_issue list"

section \<open>The comparator of \<^verbatim>\<open>fgdcomparator.py\<close>\<close>

text \<open>\<^verbatim>\<open>getattr\<close> over a fixed list of attribute names: each name with its accessor.\<close>

definition property_attrs :: "(string \<times> (FgdEntityProperty \<Rightarrow> pyval)) list" where
  "property_attrs =
     [(''value_type'', p_value_type), (''readonly'', p_readonly), (''report'', p_report),
      (''display_name'', p_display_name), (''default_value'', p_default_value),
      (''description'', p_description)]"

definition spawnflag_attrs :: "(string \<times> (FgdEntitySpawnflag \<Rightarrow> pyval)) list" where
  "spawnflag_attrs = [(''display_name'', sf_display_name), (''default_value'', sf_default_value)]"

definition io_attrs :: "(string \<times> (FgdEntityIO \<Rightarrow> pyval)) list" where
  "io_attrs = [(''value_type'', io_value_type), (''description'', io_description)]"

text \<open>The loop \<^verbatim>\<open>for attr in [...]: if css_value != csgo_value: differences[attr] = ...\<close>.\<close>

definition compare_attrs :: "(string \<times> ('a \<Rightarrow> pyval)) list \<Rightarrow> 'a \<Rightarrow> 'a \<Rightarrow> attr_diff" where
  "compare_attrs attrs css csgo =
     fold (\<lambda>(attr, get) differences.
             if py_ne (get css) (get csgo)
             then dict_set differences attr (get css, get csgo)
             else differences)
       attrs []"

text \<open>\<^verbatim>\<open>[c.schema for c in prop.choices] if prop.choices else None\<close>.\<close>

definition choices_schema ::
  "FgdEntityPropertyChoice list option \<Rightarrow> FgdEntityPropertyChoice list option" where
  "choices_schema choices =
     (case choices of None \<Rightarrow> None | Some [] \<Rightarrow> None | Some cs \<Rightarrow> Some cs)"

definition compare_property :: "FgdEntityProperty \<Rightarrow> FgdEntityProperty \<Rightarrow> property_diff option" where
  "compare_property css_prop csgo_prop =
     (let differences =
            map (\<lambda>(attr, css_value, csgo_value). (attr, AttrChange css_value csgo_value))
              (compare_attrs property_attrs css_prop csgo_prop);
          differences =
            (if p_choices css_prop \<noteq> p_choices csgo_prop
             then dict_set differences ''choices''
                    (ChoicesChange (choices_schema (p_choices css_prop))
                       (choices_schema (p_choices csgo_prop)))
             else differences)
      in if differences \<noteq> [] then Some differences else None)"

definition compare_spawnflag :: "FgdEntitySpawnflag \<Rightarrow> FgdEntitySpawnflag \<Rightarrow> attr_diff option" where
  "compare_spawnflag css_flag csgo_flag =
     (let differences = compare_attrs spawnflag_attrs css_flag csgo_flag
      in if differences \<noteq> [] then Some differences else None)"

definition compare_io_item :: "FgdEntityIO \<Rightarrow> FgdEntityIO \<Rightarrow> attr_diff option" where
  "compare_io_item css_io csgo_io =
     (let differences = compare_attrs io_attrs css_io csgo_io
      in if differences \<noteq> [] then Some differences else None)"

text \<open>
  The loop over the keys common to two dictionaries: the items are looked up (the keys are
  keys of both, so the lookups succeed), compared, and a difference is stored under the
  name of the new item in its original casing.
\<close>

definition modified_items ::
  "('a \<Rightarrow> 'a \<Rightarrow> 'm option) \<Rightarrow> ('a \<Rightarrow> string) \<Rightarrow> (string \<times> 'a) list \<Rightarrow> (string \<times> 'a) list \<Rightarrow>
   string list \<Rightarrow> (string \<times> 'm) list" where
  "modified_items cmp name_of css_dict csgo_dict names =
     fold (\<lambda>n m.
             case (dict_get css_dict n, dict_get csgo_dict n) of
               (Some css_item, Some csgo_item) \<Rightarrow>
                 (case cmp css_item csgo_item of
                    Some item_diff \<Rightarrow> dict_set m (name_of csgo_item) item_diff
                  | None \<Rightarrow> m)
             | _ \<Rightarrow> m)
       names []"

definition compare_properties ::
  "iter_order \<Rightarrow> FgdEntityProperty list \<Rightarrow> FgdEntityProperty list \<Rightarrow>
   (string, property_diff) coll_diff option" where
  "compare_properties it css_props csgo_props =
     (let css_prop_dict = dict_of (\<lambda>prop. lower (p_name prop)) css_props;
          csgo_prop_dict = dict_of (\<lambda>prop. lower (p_name prop)) csgo_props;
          differences =
            \<lparr>new = sort (str_order it (set_diff (dict_keys csgo_prop_dict) (dict_keys css_prop_dict))),
             removed = sort (str_order it (set_diff (dict_keys css_prop_dict) (dict_keys csgo_prop_dict))),
             modified =
               modified_items compare_property p_name css_prop_dict csgo_prop_dict
                 (str_order it (set_inter (dict_keys css_prop_dict) (dict_keys csgo_prop_dict)))\<rparr>
      in if new differences \<noteq> [] \<or> removed differences \<noteq> [] \<or> modified differences \<noteq> []
         then Some differences else None)"

definition compare_io ::
  "iter_order \<Rightarrow> FgdEntityIO list \<Rightarrow> FgdEntityIO list \<Rightarrow> string \<Rightarrow>
   (string, attr_diff) coll_diff option" where
  "compare_io it css_io csgo_io io_type =
     (let css_io_dict = dict_of (\<lambda>io. lower (io_name io)) css_io;
          csgo_io_dict = dict_of (\<lambda>io. lower (io_name io)) csgo_io;
          differences =
            \<lparr>new = sort (str_order it (set_diff (dict_keys csgo_io_dict) (dict_keys css_io_dict))),
             removed = sort (str_order it (set_diff (dict_keys css_io_dict) (dict_keys csgo_io_dict))),
             modified =
               modified_items compare_io_item io_name css_io_dict csgo_io_dict
                 (str_order it (set_inter (dict_keys css_io_dict) (dict_keys csgo_io_dict)))\<rparr>
      in if new differences \<noteq> [] \<or> removed differences \<noteq> [] \<or> modified differences \<noteq> []
         then Some differences else None)"

text \<open>
  \<^verbatim>\<open>{int(flag.value): flag for flag in flags}\<close>: the first value that is not an integer
  raises \<^verbatim>\<open>ValueError\<close>, which nothing in this file catches.
\<close>

fun flag_dict ::
  "(int \<times> FgdEntitySpawnflag) list \<Rightarrow> FgdEntitySpawnflag list \<Rightarrow>
   py_error + (int \<times> FgdEntitySpawnflag) list" where
  "flag_dict d [] = Inr d"
| "flag_dict d (flag # flags) =
     (case py_int (sf_value flag) of
        None \<Rightarrow> Inl ValueError
      | Some v \<Rightarrow> flag_dict (dict_set d v flag) flags)"

text \<open>
  One round of the loop over all flag values. A flag object is truthy, so
  \<^verbatim>\<open>css_flag and not csgo_flag\<close> holds when only the old dictionary has the value.
\<close>

definition spawnflag_step ::
  "(int \<times> FgdEntitySpawnflag) list \<Rightarrow> (int \<times> FgdEntitySpawnflag) list \<Rightarrow> int \<Rightarrow>
   (FgdEntitySpawnflag, attr_diff) coll_diff \<Rightarrow> (FgdEntitySpawnflag, attr_diff) coll_diff" where
  "spawnflag_step css_flag_dict csgo_flag_dict v differences =
     (case (dict_get css_flag_dict v, dict_get csgo_flag_dict v) of
        (Some css_flag, None) \<Rightarrow> differences\<lparr>removed := removed differences @ [css_flag]\<rparr>
      | (None, Some csgo_flag) \<Rightarrow> differences\<lparr>new := new differences @ [csgo_flag]\<rparr>
      | (Some css_flag, Some csgo_flag) \<Rightarrow>
          (case compare_spawnflag css_flag csgo_flag of
             Some flag_diff \<Rightarrow>
               differences\<lparr>modified := dict_set (modified differences) (str_int v) flag_diff\<rparr>
           | None \<Rightarrow> differences)
      | (None, None) \<Rightarrow> differences)"

definition compare_spawnflags ::
  "iter_order \<Rightarrow> FgdEntitySpawnflag list \<Rightarrow> FgdEntitySpawnflag list \<Rightarrow>
   py_error + (FgdEntitySpawnflag, attr_diff) coll_diff option" where
  "compare_spawnflags it css_flags csgo_flags =
     (case flag_dict [] css_flags of
        Inl e \<Rightarrow> Inl e
      | Inr css_flag_dict \<Rightarrow>
          (case flag_dict [] csgo_flags of
             Inl e \<Rightarrow> Inl e
           | Inr csgo_flag_dict \<Rightarrow>
               (let all_values = set_union (dict_keys css_flag_dict) (dict_keys csgo_flag_dict);
                    differences =
                      fold (spawnflag_step css_flag_dict csgo_flag_dict) (int_order it all_values)
                        \<lparr>new = [], removed = [], modified = []\<rparr>
                in Inr (if new differences \<noteq> [] \<or> removed differences \<noteq> []
                           \<or> modified differences \<noteq> []
                        then Some differences else None))))"

definition compare_definitions ::
  "FgdDefinition list \<Rightarrow> FgdDefinition list \<Rightarrow> definitions_diff option" where
  "compare_definitions css_defs csgo_defs =
     (let css_bases = filter (\<lambda>d. def_name d = ''base'') css_defs;
          csgo_bases = filter (\<lambda>d. def_name d = ''base'') csgo_defs
      in if css_bases \<noteq> csgo_bases
         then Some \<lparr>dd_css = css_bases, dd_csgo = csgo_bases,
                    dd_added = filter (\<lambda>b. b \<notin> set css_bases) csgo_bases,
                    dd_removed = filter (\<lambda>b. b \<notin> set csgo_bases) css_bases\<rparr>
         else None)"

definition count_changes :: "('k, 'm) coll_diff option \<Rightarrow> change_count" where
  "count_changes diff =
     (case diff of
        None \<Rightarrow> \<lparr>n_new = 0, n_removed = 0, n_modified = 0\<rparr>
      | Some d \<Rightarrow> \<lparr>n_new = length (new d), n_removed = length (removed d),
                    n_modified = length (modified d)\<rparr>)"

text \<open>
  The local variable \<^verbatim>\<open>complexity_score\<close> of \<^verbatim>\<open>calculate_porting_complexity\<close> when the
  function reaches its \<^verbatim>\<open>if\<close>. The counts are far below \<open>2^53\<close>, where sums of multiples
  of one half are exact in floating point, so the score is a rational number.
  \<^verbatim>\<open>differences['changes_summary']\<close> raises \<^verbatim>\<open>KeyError\<close> when the key is absent.
\<close>

definition complexity_score :: "entity_diff \<Rightarrow> py_error + rat" where
  "complexity_score differences =
     (let s = 0;
          s = (if d_class_type differences \<noteq> None then s + 3 else s);
          s = (case d_definitions differences of
                 Some dd \<Rightarrow> s + of_nat (length (dd_added dd)) * 2
                              + of_nat (length (dd_removed dd)) * 2
               | None \<Rightarrow> s)
      in case d_changes_summary differences of
           None \<Rightarrow> Inl KeyError
         | Some summary \<Rightarrow>
             (let s = s + of_nat (n_new (cs_properties summary)) * 2;
                  s = s + of_nat (n_removed (cs_properties summary)) * 2;
                  s = s + of_nat (n_modified (cs_properties summary));
                  s = s + of_nat (n_new (cs_inputs summary)) * (3 / 2);
                  s = s + of_nat (n_removed (cs_inputs summary)) * (3 / 2);
                  s = s + of_nat (n_modified (cs_inputs summary)) * (1 / 2);
                  s = s + of_nat (n_new (cs_outputs summary)) * (3 / 2);
                  s = s + of_nat (n_removed (cs_outputs summary)) * (3 / 2);
                  s = s + of_nat (n_modified (cs_outputs summary)) * (1 / 2);
                  s = s + of_nat (n_new (cs_spawnflags summary));
                  s = s + of_nat (n_removed (cs_spawnflags summary));
                  s = s + of_nat (n_modified (cs_spawnflags summary)) * (1 / 2)
              in Inr s))"

definition calculate_porting_complexity :: "entity_diff \<Rightarrow> py_error + string" where
  "calculate_porting_complexity differences =
     (case complexity_score differences of
        Inl e \<Rightarrow> Inl e
      | Inr s \<Rightarrow> Inr (if s > 20 then ''High'' else if s > 10 then ''Medium'' else ''Low''))"

text \<open>A dictionary is truthy when it has a key.\<close>

definition empty_diff :: entity_diff where
  "empty_diff =
     \<lparr>d_class_type = None, d_description = None, d_definitions = None, d_properties = None,
      d_spawnflags = None, d_inputs = None, d_outputs = None, d_changes_summary = None,
      d_backward_porting_complexity = None\<rparr>"

definition has_keys :: "entity_diff \<Rightarrow> bool" where
  "has_keys d =
     (d_class_type d \<noteq> None \<or> d_description d \<noteq> None \<or> d_definitions d \<noteq> None
      \<or> d_properties d \<noteq> None \<or> d_spawnflags d \<noteq> None \<or> d_inputs d \<noteq> None
      \<or> d_outputs d \<noteq> None \<or> d_changes_summary d \<noteq> None
      \<or> d_backward_porting_complexity d \<noteq> None)"

definition compare_entity :: "iter_order \<Rightarrow> FgdEntity \<Rightarrow> FgdEntity \<Rightarrow> py_error + entity_diff" where
  "compare_entity it css_entity csgo_entity =
     (let differences = empty_diff;
          differences =
            (if e_class_type css_entity \<noteq> e_class_type csgo_entity
             then differences\<lparr>d_class_type :=
                    Some (e_class_type css_entity, e_class_type csgo_entity)\<rparr>
             else differences);
          differences =
            (if py_ne (e_description css_entity) (e_description csgo_entity)
             then differences\<lparr>d_description :=
                    Some (e_description css_entity, e_description csgo_entity)\<rparr>
             else differences);
          definitions_diff =
            compare_definitions (e_definitions css_entity) (e_definitions csgo_entity);
          differences = differences\<lparr>d_definitions := definitions_diff\<rparr>;
          prop_diff = compare_properties it (e_properties css_entity) (e_properties csgo_entity);
          differences = differences\<lparr>d_properties := prop_diff\<rparr>
      in case compare_spawnflags it (e_spawnflags css_entity) (e_spawnflags csgo_entity) of
           Inl e \<Rightarrow> Inl e
         | Inr spawnflag_diff \<Rightarrow>
             (let differences = differences\<lparr>d_spawnflags := spawnflag_diff\<rparr>;
                  input_diff = compare_io it (e_inputs css_entity) (e_inputs csgo_entity) ''input'';
                  differences = differences\<lparr>d_inputs := input_diff\<rparr>;
                  output_diff =
                    compare_io it (e_outputs css_entity) (e_outputs csgo_entity) ''output'';
                  differences = differences\<lparr>d_outputs := output_diff\<rparr>
              in if has_keys differences
                 then (let differences = differences\<lparr>d_changes_summary :=
                             Some \<lparr>cs_properties = count_changes prop_diff,
                                   cs_inputs = count_changes input_diff,
                                   cs_outputs = count_changes output_diff,
                                   cs_spawnflags = count_changes spawnflag_diff\<rparr>\<rparr>
                       in case calculate_porting_complexity differences of
                            Inl e \<Rightarrow> Inl e
                          | Inr c \<Rightarrow> Inr (differences\<lparr>d_backward_porting_complexity := Some c\<rparr>))
                 else Inr differences))"

text \<open>\<^verbatim>\<open>next(e for e in fgd.entities if e.name.lower() == entity_name)\<close>, with \<open>None\<close> for no match.\<close>

definition find_entity :: "FgdEntity list \<Rightarrow> string \<Rightarrow> FgdEntity option" where
  "find_entity es entity_name = find (\<lambda>e. lower (e_name e) = entity_name) es"

text \<open>The loop over the common entity names, filling \<^verbatim>\<open>modified_entities\<close>.\<close>

fun modified_loop ::
  "iter_order \<Rightarrow> FgdEntity list \<Rightarrow> FgdEntity list \<Rightarrow> string list \<Rightarrow>
   (string \<times> entity_diff) list \<Rightarrow> py_error + (string \<times> entity_diff) list" where
  "modified_loop it css csgo [] m = Inr m"
| "modified_loop it css csgo (entity_name # rest) m =
     (case find_entity css entity_name of
        None \<Rightarrow> Inl StopIteration
      | Some css_entity \<Rightarrow>
          (case find_entity csgo entity_name of
             None \<Rightarrow> Inl StopIteration
           | Some csgo_entity \<Rightarrow>
               (case compare_entity it css_entity csgo_entity of
                  Inl e \<Rightarrow> Inl e
                | Inr entity_diff \<Rightarrow>
                    modified_loop it css csgo rest
                      (if has_keys entity_diff
                       then dict_set m (e_name csgo_entity) entity_diff
                       else m))))"

text \<open>
  The loop over the names of the new schema, filling \<^verbatim>\<open>backward_porting_issues\<close>. An
  entity object is truthy, so \<^verbatim>\<open>not css_entity\<close> holds when no old entity has the name.
\<close>

definition new_entity_issue :: "string \<Rightarrow> porting_issue" where
  "new_entity_issue entity_name =
     \<lparr>i_entity = entity_name, i_property = None,
      i_issue = ''New entity in CSGO, not present in CSS'', i_severity = ''High''\<rparr>"

definition property_issue :: "string \<Rightarrow> string \<Rightarrow> porting_issue" where
  "property_issue entity_name prop =
     \<lparr>i_entity = entity_name, i_property = Some prop,
      i_issue = ''Property exists in CSGO but not in CSS'', i_severity = ''Medium''\<rparr>"

fun issues_loop ::
  "iter_order \<Rightarrow> FgdEntity list \<Rightarrow> FgdEntity list \<Rightarrow> string list \<Rightarrow>
   porting_issue list \<Rightarrow> py_error + porting_issue list" where
  "issues_loop it css csgo [] issues = Inr issues"
| "issues_loop it css csgo (entity_name # rest) issues =
     (case find_entity csgo entity_name of
        None \<Rightarrow> Inl StopIteration
      | Some csgo_entity \<Rightarrow>
          (case find_entity css entity_name of
             None \<Rightarrow> issues_loop it css csgo rest (issues @ [new_entity_issue entity_name])
           | Some css_entity \<Rightarrow>
               (let csgo_only_properties =
                      set_diff (map p_name (e_properties csgo_entity))
                        (map p_name (e_properties css_entity))
                in issues_loop it css csgo rest
                     (issues @ map (property_issue entity_name)
                                 (str_order it csgo_only_properties)))))"

definition compare_fgds :: "iter_order \<Rightarrow> 'd Fgd \<Rightarrow> 'd Fgd \<Rightarrow> py_error + fgd_report" where
  "compare_fgds it css_fgd csgo_fgd =
     (let css_entity_names = map (\<lambda>e. lower (e_name e)) (entities css_fgd);
          csgo_entity_names = map (\<lambda>e. lower (e_name e)) (entities csgo_fgd);
          new_names = sort (str_order it (set_diff csgo_entity_names css_entity_names));
          removed_names = sort (str_order it (set_diff css_entity_names csgo_entity_names));
          common_entities = set_inter css_entity_names csgo_entity_names
      in case modified_loop it (entities css_fgd) (entities csgo_fgd)
                (str_order it common_entities) [] of
           Inl e \<Rightarrow> Inl e
         | Inr m \<Rightarrow>
             (case issues_loop it (entities css_fgd) (entities csgo_fgd)
                     (str_order it csgo_entity_names) [] of
                Inl e \<Rightarrow> Inl e
              | Inr issues \<Rightarrow>
                  Inr \<lparr>new_entities = new_names, removed_entities = removed_names,
                       modified_entities = m, backward_porting_issues = issues\<rparr>))"

section \<open>The comparator of \<^verbatim>\<open>csgo_to_css_comparison.py\<close>\<close>

text \<open>
  The functions of the second file carry the suffix \<open>_cc\<close>. Its lists of names are
  \<^verbatim>\<open>list(set)\<close> without a sort, its spawnflag comparison catches \<^verbatim>\<open>ValueError\<close> and prints
  a line, and its report has an \<^verbatim>\<open>editor_data_changes\<close> entry.
\<close>

datatype 'd ed_changes =
  Blocks "'d FgdEditorData list"
  | Payloads "(ed_key \<times> 'd \<times> 'd) list"

definition get_key :: "'d FgdEditorData \<Rightarrow> ed_key" where
  "get_key ed =
     (case ed_name ed of
        None \<Rightarrow> Key1 (ed_class_type ed)
      | Some n \<Rightarrow> if n \<noteq> [] then Key2 (ed_class_type ed) n else Key1 (ed_class_type ed))"

definition compare_editor_data ::
  "iter_order \<Rightarrow> 'd FgdEditorData list \<Rightarrow> 'd FgdEditorData list \<Rightarrow> (string \<times> 'd ed_changes) list" where
  "compare_editor_data it css_editor_data csgo_editor_data =
     (let css_data = dict_of get_key css_editor_data;
          csgo_data = dict_of get_key csgo_editor_data;
          new_blocks =
            List.map_filter (dict_get csgo_data)
              (key_order it (set_diff (dict_keys csgo_data) (dict_keys css_data)));
          removed_blocks =
            List.map_filter (dict_get css_data)
              (key_order it (set_diff (dict_keys css_data) (dict_keys csgo_data)));
          modified_blocks =
            List.map_filter
              (\<lambda>k. case (dict_get css_data k, dict_get csgo_data k) of
                     (Some a, Some b) \<Rightarrow>
                       if ed_data a \<noteq> ed_data b then Some (k, ed_data a, ed_data b) else None
                   | _ \<Rightarrow> None)
              (key_order it (set_inter (dict_keys css_data) (dict_keys csgo_data)))
      in [(''new'', Blocks new_blocks), (''removed'', Blocks removed_blocks),
          (''modified'', Payloads modified_blocks)])"

text \<open>The choices as \<^verbatim>\<open>{'value': ..., 'display_name': ...}\<close> dictionaries, sorted by value.\<close>

definition sorted_choices ::
  "FgdEntityPropertyChoice list option \<Rightarrow> FgdEntityPropertyChoice list" where
  "sorted_choices choices = sort_key c_value (case choices of None \<Rightarrow> [] | Some cs \<Rightarrow> cs)"

definition compare_property_cc ::
  "FgdEntityProperty \<Rightarrow> FgdEntityProperty \<Rightarrow> property_diff option" where
  "compare_property_cc css_prop csgo_prop =
     (let differences =
            map (\<lambda>(attr, css_value, csgo_value). (attr, AttrChange css_value csgo_value))
              (compare_attrs property_attrs css_prop csgo_prop);
          differences =
            (if p_choices css_prop \<noteq> None \<or> p_choices csgo_prop \<noteq> None
             then (let css_choices = sorted_choices (p_choices css_prop);
                       csgo_choices = sorted_choices (p_choices csgo_prop)
                   in if css_choices \<noteq> csgo_choices
                      then dict_set differences ''choices''
                             (ChoicesChange (Some css_choices) (Some csgo_choices))
                      else differences)
             else differences)
      in if differences \<noteq> [] then Some differences else None)"

definition compare_properties_cc ::
  "iter_order \<Rightarrow> FgdEntityProperty list \<Rightarrow> FgdEntityProperty list \<Rightarrow>
   (string, property_diff) coll_diff option" where
  "compare_properties_cc it css_props csgo_props =
     (if css_props = [] \<and> csgo_props = [] then None
      else
        (let css_prop_dict = dict_of (\<lambda>prop. lower (p_name prop)) css_props;
             csgo_prop_dict = dict_of (\<lambda>prop. lower (p_name prop)) csgo_props;
             differences =
               \<lparr>new = str_order it (set_diff (dict_keys csgo_prop_dict) (dict_keys css_prop_dict)),
                removed = str_order it (set_diff (dict_keys css_prop_dict) (dict_keys csgo_prop_dict)),
                modified =
                  modified_items compare_property_cc p_name css_prop_dict csgo_prop_dict
                    (str_order it (set_inter (dict_keys css_prop_dict) (dict_keys csgo_prop_dict)))\<rparr>
         in if new differences \<noteq> [] \<or> removed differences \<noteq> [] \<or> modified differences \<noteq> []
            then Some differences else None))"

text \<open>
  The grouping loop of \<^verbatim>\<open>compare_spawnflags\<close>: a value that is not an integer prints one
  line and the flag is skipped. The result is the printed lines and the
  \<^verbatim>\<open>defaultdict(list)\<close>.
\<close>

fun dict_append :: "('k \<times> 'v list) list \<Rightarrow> 'k \<Rightarrow> 'v \<Rightarrow> ('k \<times> 'v list) list" where
  "dict_append [] k v = [(k, [v])]"
| "dict_append ((k', vs) # d) k v =
     (if k' = k then (k', vs @ [v]) # d else (k', vs) # dict_append d k v)"

fun group_flags ::
  "string \<Rightarrow> FgdEntitySpawnflag list \<Rightarrow> string list \<times> (int \<times> FgdEntitySpawnflag list) list \<Rightarrow>
   string list \<times> (int \<times> FgdEntitySpawnflag list) list" where
  "group_flags label [] acc = acc"
| "group_flags label (flag # flags) (out, d) =
     (case py_int (sf_value flag) of
        None \<Rightarrow> group_flags label flags (out @ [label @ sf_value flag], d)
      | Some flag_value \<Rightarrow> group_flags label flags (out, dict_append d flag_value flag))"

definition flag_label :: "int \<Rightarrow> FgdEntitySpawnflag \<Rightarrow> string" where
  "flag_label v flag = str_int v @ '' ('' @ py_str (sf_display_name flag) @ '')''"

definition flags_of :: "(int \<times> FgdEntitySpawnflag list) list \<Rightarrow> int \<Rightarrow> FgdEntitySpawnflag list" where
  "flags_of d v = (case dict_get d v of Some flags \<Rightarrow> flags | None \<Rightarrow> [])"

datatype sf_changes = Labels "string list" | Changes "(string \<times> attr_diff) list"

fun truthy :: "sf_changes \<Rightarrow> bool" where
  "truthy (Labels xs) = (xs \<noteq> [])"
| "truthy (Changes m) = (m \<noteq> [])"

definition compare_spawnflags_cc ::
  "iter_order \<Rightarrow> FgdEntitySpawnflag list \<Rightarrow> FgdEntitySpawnflag list \<Rightarrow>
   string list \<times> (string \<times> sf_changes) list option" where
  "compare_spawnflags_cc it css_flags csgo_flags =
     (let (out, css_flag_dict) =
            group_flags ''Invalid flag value in CS:S FGD: '' css_flags ([], []);
          (out, csgo_flag_dict) =
            group_flags ''Invalid flag value in CS:GO FGD: '' csgo_flags (out, []);
          new_labels =
            concat (map (\<lambda>v. map (flag_label v) (flags_of csgo_flag_dict v))
                      (int_order it (set_diff (dict_keys csgo_flag_dict) (dict_keys css_flag_dict))));
          removed_labels =
            concat (map (\<lambda>v. map (flag_label v) (flags_of css_flag_dict v))
                      (int_order it (set_diff (dict_keys css_flag_dict) (dict_keys csgo_flag_dict))));
          modified_flags =
            fold (\<lambda>flag_value m.
                    fold (\<lambda>(css_flag, csgo_flag) m.
                            case compare_spawnflag css_flag csgo_flag of
                              Some flag_diff \<Rightarrow> dict_set m (flag_label flag_value csgo_flag) flag_diff
                            | None \<Rightarrow> m)
                      (zip (flags_of css_flag_dict flag_value) (flags_of csgo_flag_dict flag_value)) m)
              (int_order it (set_inter (dict_keys css_flag_dict) (dict_keys csgo_flag_dict))) [];
          differences =
            filter (\<lambda>(k, v). truthy v)
              [(''new'', Labels new_labels), (''removed'', Labels removed_labels),
               (''modified'', Changes modified_flags)]
      in (out, if differences \<noteq> [] then Some differences else None))"

text \<open>\<^verbatim>\<open>type(io).__name__\<close>.\<close>

fun class_name :: "io_class \<Rightarrow> string" where
  "class_name FgdEntityInput = ''FgdEntityInput''"
| "class_name FgdEntityOutput = ''FgdEntityOutput''"

definition compare_io_item_cc :: "FgdEntityIO \<Rightarrow> FgdEntityIO \<Rightarrow> attr_diff option" where
  "compare_io_item_cc css_io csgo_io =
     (if io_class css_io \<noteq> io_class csgo_io
      then Some [(''type'', PyStr (class_name (io_class css_io)),
                  PyStr (class_name (io_class csgo_io)))]
      else (let differences = compare_attrs io_attrs css_io csgo_io
            in if differences \<noteq> [] then Some differences else None))"

definition compare_io_cc ::
  "iter_order \<Rightarrow> FgdEntityIO list \<Rightarrow> FgdEntityIO list \<Rightarrow> (string, attr_diff) coll_diff option" where
  "compare_io_cc it css_io csgo_io =
     (let css_io_dict = dict_of (\<lambda>io. lower (io_name io)) css_io;
          csgo_io_dict = dict_of (\<lambda>io. lower (io_name io)) csgo_io;
          differences =
            \<lparr>new = str_order it (set_diff (dict_keys csgo_io_dict) (dict_keys css_io_dict)),
             removed = str_order it (set_diff (dict_keys css_io_dict) (dict_keys csgo_io_dict)),
             modified =
               modified_items compare_io_item_cc io_name css_io_dict csgo_io_dict
                 (str_order it (set_inter (dict_keys css_io_dict) (dict_keys csgo_io_dict)))\<rparr>
      in if new differences \<noteq> [] \<or> removed differences \<noteq> [] \<or> modified differences \<noteq> []
         then Some differences else None)"

record entity_diff_cc =
  c_class_type :: "(string \<times> string) option"
  c_description :: "(pyval \<times> pyval) option"
  c_definitions :: "(FgdDefinition list \<times> FgdDefinition list) option"
  c_properties :: "(string, property_diff) coll_diff option"
  c_spawnflags :: "(string \<times> sf_changes) list option"
  c_inputs :: "(string, attr_diff) coll_diff option"
  c_outputs :: "(string, attr_diff) coll_diff option"

definition has_keys_cc :: "entity_diff_cc \<Rightarrow> bool" where
  "has_keys_cc d =
     (c_class_type d \<noteq> None \<or> c_description d \<noteq> None \<or> c_definitions d \<noteq> None
      \<or> c_properties d \<noteq> None \<or> c_spawnflags d \<noteq> None \<or> c_inputs d \<noteq> None
      \<or> c_outputs d \<noteq> None)"

text \<open>
  \<^verbatim>\<open>sorted(definitions, key=lambda d: sorted(d.items()))\<close>: the items of a clause sorted
  by key are \<^verbatim>\<open>[('args', ...), ('name', ...)]\<close>, compared as lists of tuples.
\<close>

definition definition_key :: "FgdDefinition \<Rightarrow> string list \<times> string" where
  "definition_key d = (def_args d, def_name d)"

definition compare_entity_cc ::
  "iter_order \<Rightarrow> FgdEntity \<Rightarrow> FgdEntity \<Rightarrow> string list \<times> entity_diff_cc" where
  "compare_entity_cc it css_entity csgo_entity =
     (let sorted_css_definitions = sort_key definition_key (e_definitions css_entity);
          sorted_csgo_definitions = sort_key definition_key (e_definitions csgo_entity);
          (out, spawnflag_diff) =
            compare_spawnflags_cc it (e_spawnflags css_entity) (e_spawnflags csgo_entity)
      in (out,
          \<lparr>c_class_type =
             (if e_class_type css_entity \<noteq> e_class_type csgo_entity
              then Some (e_class_type css_entity, e_class_type csgo_entity) else None),
           c_description =
             (if py_ne (e_description css_entity) (e_description csgo_entity)
              then Some (e_description css_entity, e_description csgo_entity) else None),
           c_definitions =
             (if sorted_css_definitions \<noteq> sorted_csgo_definitions
              then Some (sorted_css_definitions, sorted_csgo_definitions) else None),
           c_properties =
             compare_properties_cc it (e_properties css_entity) (e_properties csgo_entity),
           c_spawnflags = spawnflag_diff,
           c_inputs = compare_io_cc it (e_inputs css_entity) (e_inputs csgo_entity),
           c_outputs = compare_io_cc it (e_outputs css_entity) (e_outputs csgo_entity)\<rparr>))"

record 'd report_cc =
  new_entities_cc :: "string list"
  removed_entities_cc :: "string list"
  modified_entities_cc :: "(string \<times> entity_diff_cc) list"
  editor_data_changes :: "(string \<times> 'd ed_changes) list"

fun modified_loop_cc ::
  "iter_order \<Rightarrow> FgdEntity list \<Rightarrow> FgdEntity list \<Rightarrow> string list \<Rightarrow>
   string list \<times> (string \<times> entity_diff_cc) list \<Rightarrow>
   py_error + string list \<times> (string \<times> entity_diff_cc) list" where
  "modified_loop_cc it css csgo [] acc = Inr acc"
| "modified_loop_cc it css csgo (entity_name # rest) (out, m) =
     (case find_entity css entity_name of
        None \<Rightarrow> Inl StopIteration
      | Some css_entity \<Rightarrow>
          (case find_entity csgo entity_name of
             None \<Rightarrow> Inl StopIteration
           | Some csgo_entity \<Rightarrow>
               (let (printed, entity_diff) = compare_entity_cc it css_entity csgo_entity
                in modified_loop_cc it css csgo rest
                     (out @ printed,
                      if has_keys_cc entity_diff
                      then dict_set m (e_name csgo_entity) entity_diff
                      else m))))"

text \<open>The result of a run: the lines printed and the report, or the exception raised.\<close>

definition compare_fgds_cc ::
  "iter_order \<Rightarrow> 'd Fgd \<Rightarrow> 'd Fgd \<Rightarrow> py_error + string list \<times> 'd report_cc" where
  "compare_fgds_cc it css_fgd csgo_fgd =
     (let css_entity_names = map (\<lambda>e. lower (e_name e)) (entities css_fgd);
          csgo_entity_names = map (\<lambda>e. lower (e_name e)) (entities csgo_fgd);
          new_names = str_order it (set_diff csgo_entity_names css_entity_names);
          removed_names = str_order it (set_diff css_entity_names csgo_entity_names);
          editor_diff = compare_editor_data it (editor_data css_fgd) (editor_data csgo_fgd);
          common_entities = set_inter css_entity_names csgo_entity_names
      in case modified_loop_cc it (entities css_fgd) (entities csgo_fgd)
                (str_order it common_entities) ([], []) of
           Inl e \<Rightarrow> Inl e
         | Inr (out, m) \<Rightarrow>
             Inr (out, \<lparr>new_entities_cc = new_names, removed_entities_cc = removed_names,
                        modified_entities_cc = m, editor_data_changes = editor_diff\<rparr>))"

section \<open>Definitions used to state the properties\<close>

text \<open>
  The weighted sum of the complexity scorer as the specification words it: 3 for a
  class-type change, 2 per added or removed base clause, 2 per added or removed property,
  1 per modified property, 1.5 per added or removed input or output, 0.5 per modified
  input or output, 1 per added or removed spawnflag, 0.5 per modified spawnflag.
\<close>

definition weighted_sum :: "entity_diff \<Rightarrow> changes_summary \<Rightarrow> rat" where
  "weighted_sum d summary =
     3 * (if d_class_type d \<noteq> None then 1 else 0)
     + 2 * (case d_definitions d of
              Some dd \<Rightarrow> of_nat (length (dd_added dd) + length (dd_removed dd))
            | None \<Rightarrow> 0)
     + 2 * of_nat (n_new (cs_properties summary) + n_removed (cs_properties summary))
     + 1 * of_nat (n_modified (cs_properties summary))
     + 3 / 2 * of_nat (n_new (cs_inputs summary) + n_removed (cs_inputs summary)
                       + n_new (cs_outputs summary) + n_removed (cs_outputs summary))
     + 1 / 2 * of_nat (n_modified (cs_inputs summary) + n_modified (cs_outputs summary))
     + 1 * of_nat (n_new (cs_spawnflags summary) + n_removed (cs_spawnflags summary))
     + 1 / 2 * of_nat (n_modified (cs_spawnflags summary))"

text \<open>A diff with a class-type change, four property, two input and two spawnflag changes.\<close>

definition example_diff :: entity_diff where
  "example_diff =
     empty_diff\<lparr>d_class_type := Some (''PointClass'', ''SolidClass''),
       d_changes_summary := Some
         \<lparr>cs_properties = \<lparr>n_new = 2, n_removed = 1, n_modified = 1\<rparr>,
          cs_inputs = \<lparr>n_new = 1, n_removed = 0, n_modified = 1\<rparr>,
          cs_outputs = \<lparr>n_new = 0, n_removed = 0, n_modified = 0\<rparr>,
          cs_spawnflags = \<lparr>n_new = 1, n_removed = 0, n_modified = 1\<rparr>\<rparr>\<rparr>"

text \<open>Auxiliary constants of the proofs: one round of the loop of \<open>modified_items\<close>, and the
  entity diff without a key.\<close>

definition no_diff_cc :: entity_diff_cc where
  "no_diff_cc = \<lparr>c_class_type = None, c_description = None, c_definitions = None,
     c_properties = None, c_spawnflags = None, c_inputs = None, c_outputs = None\<rparr>"

definition items_step ::
  "('a \<Rightarrow> 'a \<Rightarrow> 'm option) \<Rightarrow> ('a \<Rightarrow> string) \<Rightarrow> (string \<times> 'a) list \<Rightarrow> (string \<times> 'a) list \<Rightarrow>
   string \<Rightarrow> (string \<times> 'm) list \<Rightarrow> (string \<times> 'm) list" where
  "items_step cmp name_of css_dict csgo_dict n m =
     (case (dict_get css_dict n, dict_get csgo_dict n) of
               (Some css_item, Some csgo_item) \<Rightarrow>
                 (case cmp css_item csgo_item of
                    Some item_diff \<Rightarrow> dict_set m (name_of csgo_item) item_diff
                  | None \<Rightarrow> m)
             | _ \<Rightarrow> m)"

text \<open>
  Three iteration orders: the order of insertion, its reverse, and for sets of small
  integers the order of CPython, which walks the hash table of a set slot by slot (an
  integer is its own hash, and a set of up to four elements has eight slots).
\<close>

definition insertion_order :: iter_order where
  "insertion_order = \<lparr>str_order = remdups, int_order = remdups, key_order = remdups\<rparr>"

definition reverse_order :: iter_order where
  "reverse_order =
     \<lparr>str_order = (\<lambda>xs. rev (remdups xs)), int_order = (\<lambda>xs. rev (remdups xs)),
      key_order = (\<lambda>xs. rev (remdups xs))\<rparr>"

definition slot_order :: iter_order where
  "slot_order =
     \<lparr>str_order = remdups, int_order = (\<lambda>xs. sort_key (\<lambda>v. v mod 8) (remdups xs)),
      key_order = remdups\<rparr>"

text \<open>Small schemas for the concrete runs.\<close>

definition example_property :: "string \<Rightarrow> string \<Rightarrow> FgdEntityProperty" where
  "example_property n dflt =
     \<lparr>p_name = n, p_value_type = PyStr ''integer'', p_readonly = PyBool False,
      p_report = PyBool False, p_display_name = PyNone, p_default_value = PyStr dflt,
      p_description = PyNone, p_choices = None\<rparr>"

definition example_flag :: "string \<Rightarrow> string \<Rightarrow> FgdEntitySpawnflag" where
  "example_flag v n = \<lparr>sf_value = v, sf_display_name = PyStr n, sf_default_value = PyBool False\<rparr>"

definition example_io :: "io_class \<Rightarrow> string \<Rightarrow> FgdEntityIO" where
  "example_io c n =
     \<lparr>io_class = c, io_name = n, io_value_type = PyStr ''void'', io_description = PyNone\<rparr>"

definition example_entity ::
  "string \<Rightarrow> FgdEntityProperty list \<Rightarrow> FgdEntitySpawnflag list \<Rightarrow> FgdEntityIO list \<Rightarrow>
   FgdEntityIO list \<Rightarrow> FgdEntity" where
  "example_entity n props flags ins outs =
     \<lparr>e_name = n, e_class_type = ''PointClass'', e_description = PyNone, e_definitions = [],
      e_properties = props, e_spawnflags = flags, e_inputs = ins, e_outputs = outs\<rparr>"

definition example_fgd :: "FgdEntity list \<Rightarrow> unit Fgd" where
  "example_fgd es = \<lparr>entities = es, editor_data = []\<rparr>"

definition bad_flag_fgd :: "unit Fgd" where
  "bad_flag_fgd = example_fgd [example_entity ''func_door'' [] [example_flag ''abc'' ''Locked''] [] []]"

definition base_clause :: "string \<Rightarrow> FgdDefinition" where
  "base_clause arg = \<lparr>def_name = ''base'', def_args = [arg]\<rparr>"

definition size_clause :: FgdDefinition where
  "size_clause = \<lparr>def_name = ''size'', def_args = [''-8 -8 -8'', ''8 8 8'']\<rparr>"

definition no_report_cc :: "unit report_cc" where
  "no_report_cc =
     \<lparr>new_entities_cc = [], removed_entities_cc = [], modified_entities_cc = [],
      editor_data_changes =
        [(''new'', Blocks []), (''removed'', Blocks []), (''modified'', Payloads [])]\<rparr>"

text \<open>A schema with an entity and two metadata blocks.\<close>

definition visgroup_fgd :: "string Fgd" where
  "visgroup_fgd =
     \<lparr>entities = [example_entity ''func_door'' [example_property ''speed'' ''100'']
                    [example_flag ''1'' ''Locked''] [example_io FgdEntityInput ''Open''] []],
      editor_data = [\<lparr>ed_class_type = ''AutoVisGroup'', ed_name = Some ''Brushes'', ed_data = ''Triggers''\<rparr>,
                     \<lparr>ed_class_type = ''MaterialExclusion'', ed_name = None, ed_data = ''debug''\<rparr>]\<rparr>"





text \<open>An entity all of whose spawnflag values are integers.\<close>

definition integer_flags :: "FgdEntity \<Rightarrow> bool" where
  "integer_flags e = list_all (\<lambda>f. py_int (sf_value f) \<noteq> None) (e_spawnflags e)"

text \<open>
  Schemas with duplicate keys: two entities named \<^verbatim>\<open>x\<close> up to case, two properties named
  \<^verbatim>\<open>speed\<close> up to case and two spawnflags of value 1 in the old schema.
\<close>

definition dup_a :: "unit Fgd" where
  "dup_a = example_fgd
     [example_entity ''x'' [example_property ''speed'' ''100'', example_property ''Speed'' ''300'']
        [example_flag ''1'' ''Locked'', example_flag ''1'' ''Silent''] [] [],
      example_entity ''X'' [example_property ''speed'' ''999''] [] [] []]"

definition dup_b :: "unit Fgd" where
  "dup_b = example_fgd
     [example_entity ''x'' [example_property ''speed'' ''300''] [example_flag ''1'' ''Silent''] [] []]"

definition dup_c :: "unit Fgd" where
  "dup_c = example_fgd
     [example_entity ''x'' [example_property ''speed'' ''100'', example_property ''Speed'' ''150'']
        [example_flag ''1'' ''Locked'', example_flag ''1'' ''Silent''] [] [],
      example_entity ''X'' [example_property ''speed'' ''300''] [] [] []]"

definition dup_properties_diff :: "(string, property_diff) coll_diff" where
  "dup_properties_diff =
     \<lparr>new = [], removed = [],
      modified = [(''speed'', [(''default_value'', AttrChange (PyStr ''150'') (PyStr ''300''))])]\<rparr>"

definition dup_entity_diff :: entity_diff where
  "dup_entity_diff =
     empty_diff
       \<lparr>d_properties := Some dup_properties_diff,
        d_changes_summary := Some
          \<lparr>cs_properties = \<lparr>n_new = 0, n_removed = 0, n_modified = 1\<rparr>,
           cs_inputs = \<lparr>n_new = 0, n_removed = 0, n_modified = 0\<rparr>,
           cs_outputs = \<lparr>n_new = 0, n_removed = 0, n_modified = 0\<rparr>,
           cs_spawnflags = \<lparr>n_new = 0, n_removed = 0, n_modified = 0\<rparr>\<rparr>,
        d_backward_porting_complexity := Some ''Low''\<rparr>"

definition dup_report :: fgd_report where
  "dup_report =
     \<lparr>new_entities = [], removed_entities = [], modified_entities = [(''x'', dup_entity_diff)],
      backward_porting_issues = []\<rparr>"

text \<open>The dictionary that the grouping loop of \<^verbatim>\<open>compare_spawnflags\<close> builds, without its output.\<close>

fun group_valid ::
  "FgdEntitySpawnflag list \<Rightarrow> (int \<times> FgdEntitySpawnflag list) list \<Rightarrow>
   (int \<times> FgdEntitySpawnflag list) list" where
  "group_valid [] d = d"
| "group_valid (flag # flags) d =
     (case py_int (sf_value flag) of
        None \<Rightarrow> group_valid flags d
      | Some v \<Rightarrow> group_valid flags (dict_append d v flag))"

text \<open>
  The entry that one round of the loop over the common names adds to a \<^verbatim>\<open>modified\<close>
  dictionary, if it adds one.
\<close>

definition item_entry ::
  "('a \<Rightarrow> 'a \<Rightarrow> 'm option) \<Rightarrow> ('a \<Rightarrow> string) \<Rightarrow> (string \<times> 'a) list \<Rightarrow> (string \<times> 'a) list \<Rightarrow>
   string \<Rightarrow> (string \<times> 'm) option" where
  "item_entry cmp name_of css_dict csgo_dict n =
     (case (dict_get css_dict n, dict_get csgo_dict n) of
        (Some css_item, Some csgo_item) \<Rightarrow>
          (case cmp css_item csgo_item of
             Some item_diff \<Rightarrow> Some (name_of csgo_item, item_diff)
           | None \<Rightarrow> None)
      | _ \<Rightarrow> None)"

text \<open>
  Projections of the spawnflag result of \<^verbatim>\<open>csgo_to_css_comparison.py\<close>: its \<^verbatim>\<open>modified\<close>
  dictionary and the list of labels under a key, both empty when the key is absent.
\<close>

definition modified_of :: "(string \<times> sf_changes) list option \<Rightarrow> (string \<times> attr_diff) list" where
  "modified_of res =
     (case res of
        None \<Rightarrow> []
      | Some d \<Rightarrow> (case dict_get d ''modified'' of Some (Changes m) \<Rightarrow> m | _ \<Rightarrow> []))"

definition labels_of :: "string \<Rightarrow> (string \<times> sf_changes) list option \<Rightarrow> string list" where
  "labels_of category res =
     (case res of
        None \<Rightarrow> []
      | Some d \<Rightarrow> (case dict_get d category of Some (Labels xs) \<Rightarrow> xs | _ \<Rightarrow> []))"

text \<open>The flags of a list that have a given integer value, in their order, and the last of them.\<close>

definition flags_with :: "int \<Rightarrow> FgdEntitySpawnflag list \<Rightarrow> FgdEntitySpawnflag list" where
  "flags_with v flags = filter (\<lambda>f. py_int (sf_value f) = Some v) flags"

definition last_flag :: "int \<Rightarrow> FgdEntitySpawnflag list \<Rightarrow> FgdEntitySpawnflag option" where
  "last_flag v flags = find (\<lambda>f. py_int (sf_value f) = Some v) (rev flags)"

text \<open>
  One round of the inner loop of \<^verbatim>\<open>compare_spawnflags\<close> of \<^verbatim>\<open>csgo_to_css_comparison.py\<close>
  over the positional pairs of the flags of one value.
\<close>

definition pair_step ::
  "int \<Rightarrow> FgdEntitySpawnflag \<times> FgdEntitySpawnflag \<Rightarrow> (string \<times> attr_diff) list \<Rightarrow>
   (string \<times> attr_diff) list" where
  "pair_step v p m =
     (case compare_spawnflag (fst p) (snd p) of
        Some flag_diff \<Rightarrow> dict_set m (flag_label v (snd p)) flag_diff
      | None \<Rightarrow> m)"

text \<open>
  Two io signals named \<^verbatim>\<open>open\<close> up to case, two flags of value 1 in each schema, and the
  reports of \<^verbatim>\<open>csgo_to_css_comparison.py\<close> for the schemas above.
\<close>

definition dup_io_old :: "FgdEntityIO list" where
  "dup_io_old =
     [example_io FgdEntityInput ''Open'',
      (example_io FgdEntityInput ''open'')\<lparr>io_description := PyStr ''Opens''\<rparr>]"

definition dup_io_new :: "FgdEntityIO list" where
  "dup_io_new = [example_io FgdEntityInput ''OPEN'']"

definition dup_io_diff :: "(string, attr_diff) coll_diff" where
  "dup_io_diff =
     \<lparr>new = [], removed = [],
      modified = [(''OPEN'', [(''description'', PyStr ''Opens'', PyNone)])]\<rparr>"

definition dup_flags_old :: "FgdEntitySpawnflag list" where
  "dup_flags_old = [example_flag ''1'' ''Locked'', example_flag ''1'' ''Silent'']"

definition dup_flags_new :: "FgdEntitySpawnflag list" where
  "dup_flags_new = [example_flag ''1'' ''Locked'', example_flag ''1'' ''Quiet'']"

definition dup_entity_diff_cc :: entity_diff_cc where
  "dup_entity_diff_cc =
     \<lparr>c_class_type = None, c_description = None, c_definitions = None,
      c_properties = Some dup_properties_diff,
      c_spawnflags = Some
        [(''modified'',
          Changes [(''1 (Silent)'', [(''display_name'', PyStr ''Locked'', PyStr ''Silent'')])])],
      c_inputs = None, c_outputs = None\<rparr>"

definition dup_report_cc :: "unit report_cc" where
  "dup_report_cc = no_report_cc\<lparr>modified_entities_cc := [(''x'', dup_entity_diff_cc)]\<rparr>"


section \<open>Properties of the comparators\<close>

subsection \<open>The complexity score\<close>

lemma complexity_score_eq:
  "d_changes_summary d = Some summary \<Longrightarrow> complexity_score d = Inr (weighted_sum d summary)"
  by (simp add: complexity_score_def weighted_sum_def Let_def algebra_simps split: option.splits)

text \<open>
  C3: for every per-entity diff that carries its change summary, the score that
  \<^verbatim>\<open>calculate_porting_complexity\<close> accumulates is the weighted sum of the specification,
  and the bucket it returns is High iff the score is greater than 20, Medium iff it is
  greater than 10 and at most 20, and Low otherwise.
\<close>

theorem complexity_weighted_sum:
  assumes "d_changes_summary d = Some summary"
  shows "complexity_score d = Inr (weighted_sum d summary)
    \<and> (calculate_porting_complexity d = Inr ''High'' \<longleftrightarrow> weighted_sum d summary > 20)
    \<and> (calculate_porting_complexity d = Inr ''Medium'' \<longleftrightarrow>
         weighted_sum d summary > 10 \<and> weighted_sum d summary \<le> 20)
    \<and> (calculate_porting_complexity d = Inr ''Low'' \<longleftrightarrow> weighted_sum d summary \<le> 10)"
  using complexity_score_eq [OF assms]
  by (auto simp: calculate_porting_complexity_def)

theorem complexity_weighted_sum_witness:
  "complexity_score example_diff = Inr (27 / 2)
   \<and> calculate_porting_complexity example_diff = Inr ''Medium''"
  using complexity_weighted_sum [of example_diff "the (d_changes_summary example_diff)"]
  by (simp add: example_diff_def empty_diff_def weighted_sum_def)

subsection \<open>Sets, dictionaries and comparisons of an item with itself\<close>

lemma py_eq_refl: "py_eq a a"
  by (cases a) simp_all

lemma py_ne_same: "\<not> py_ne a a"
  by (simp add: py_ne_def py_eq_refl)

lemma valid_order_set: "valid_order f \<Longrightarrow> set (f xs) = set xs"
  by (simp add: valid_order_def)

lemma valid_order_distinct: "valid_order f \<Longrightarrow> distinct (f xs)"
  by (simp add: valid_order_def)

lemma valid_order_Nil: "valid_order f \<Longrightarrow> f [] = []"
  using valid_order_set [of f "[]"] by simp

lemma set_diff_same: "set_diff xs xs = []"
  by (simp add: set_diff_def)

lemma set_set_diff: "set (set_diff xs ys) = set xs - set ys"
  by (auto simp: set_diff_def)

lemma set_set_inter: "set (set_inter xs ys) = set xs \<inter> set ys"
  by (auto simp: set_inter_def)

lemma map_of_dict_set: "map_of (dict_set d k v) = (map_of d)(k \<mapsto> v)"
  by (induction d k v rule: dict_set.induct) auto

lemma dict_get_dict_set: "dict_get (dict_set d k v) k' = (if k' = k then Some v else dict_get d k')"
  by (simp add: dict_get_def map_of_dict_set)

lemma keys_dict_set: "fst ` set (dict_set d k v) = insert k (fst ` set d)"
  by (induction d k v rule: dict_set.induct) auto

lemma set_dict_set: "set (dict_set d k v) \<subseteq> insert (k, v) (set d)"
  by (induction d k v rule: dict_set.induct) auto

lemma distinct_dict_set: "distinct (map fst d) \<Longrightarrow> distinct (map fst (dict_set d k v))"
  by (induction d k v rule: dict_set.induct) (auto simp: keys_dict_set)

lemma dict_set_not_Nil: "dict_set d k v \<noteq> []"
  by (induction d k v rule: dict_set.induct) auto

lemma dict_set_fresh: "k \<notin> fst ` set d \<Longrightarrow> dict_set d k v = d @ [(k, v)]"
  by (induction d k v rule: dict_set.induct) auto

lemma fold_dict_of_keys:
  "fst ` set (fold (\<lambda>x d. dict_set d (key x) x) xs d0) = fst ` set d0 \<union> key ` set xs"
  by (induction xs arbitrary: d0) (simp_all add: keys_dict_set)

lemma fold_dict_of_distinct:
  "distinct (map fst d0) \<Longrightarrow> distinct (map fst (fold (\<lambda>x d. dict_set d (key x) x) xs d0))"
  by (induction xs arbitrary: d0) (auto simp: distinct_dict_set)

lemma find_app:
  "find P (xs @ ys) = (case find P xs of Some x \<Rightarrow> Some x | None \<Rightarrow> find P ys)"
  by (induction xs) auto

lemma find_Some_set: "find P xs = Some x \<Longrightarrow> P x \<and> x \<in> set xs"
  by (induction xs) (auto split: if_splits)

lemma fold_dict_of_get:
  "map_of (fold (\<lambda>x d. dict_set d (key x) x) xs d0) k =
     (case find (\<lambda>x. key x = k) (rev xs) of Some x \<Rightarrow> Some x | None \<Rightarrow> map_of d0 k)"
proof (induction xs arbitrary: d0)
  case Nil
  then show ?case by simp
next
  case (Cons x xs)
  show ?case
    by (simp add: Cons.IH map_of_dict_set find_app split: option.splits)
qed

lemma set_dict_keys_dict_of: "set (dict_keys (dict_of key xs)) = key ` set xs"
  by (simp add: dict_keys_def dict_of_def fold_dict_of_keys)

lemma distinct_dict_keys_dict_of: "distinct (dict_keys (dict_of key xs))"
  by (simp add: dict_keys_def dict_of_def fold_dict_of_distinct)

lemma dict_get_dict_of: "dict_get (dict_of key xs) k = find (\<lambda>x. key x = k) (rev xs)"
  by (simp add: dict_get_def dict_of_def fold_dict_of_get split: option.splits)

lemma dict_get_dict_of_key: "dict_get (dict_of key xs) k = Some x \<Longrightarrow> key x = k \<and> x \<in> set xs"
  by (auto simp: dict_get_dict_of dest: find_Some_set)

lemma compare_attrs_same: "compare_attrs attrs x x = []"
proof -
  have "fold (\<lambda>(attr, get) differences.
             if py_ne (get x) (get x)
             then dict_set differences attr (get x, get x)
             else differences) attrs d = d" for d
    by (induction attrs arbitrary: d) (auto simp: py_ne_same)
  then show ?thesis by (simp add: compare_attrs_def)
qed

lemma compare_property_same: "compare_property p p = None"
  by (simp add: compare_property_def compare_attrs_same)

lemma compare_property_cc_same: "compare_property_cc p p = None"
  by (simp add: compare_property_cc_def compare_attrs_same)

lemma compare_spawnflag_same: "compare_spawnflag f f = None"
  by (simp add: compare_spawnflag_def compare_attrs_same)

lemma compare_io_item_same: "compare_io_item x x = None"
  by (simp add: compare_io_item_def compare_attrs_same)

lemma compare_io_item_cc_same: "compare_io_item_cc x x = None"
  by (simp add: compare_io_item_cc_def compare_attrs_same)

lemma modified_items_same:
  assumes "\<And>a. cmp a a = None"
  shows "modified_items cmp name_of d d names = []"
proof -
  have "fold (\<lambda>n m.
             case (dict_get d n, dict_get d n) of
               (Some css_item, Some csgo_item) \<Rightarrow>
                 (case cmp css_item csgo_item of
                    Some item_diff \<Rightarrow> dict_set m (name_of csgo_item) item_diff
                  | None \<Rightarrow> m)
             | _ \<Rightarrow> m) names m0 = m0" for m0
    by (induction names arbitrary: m0) (auto simp: assms split: option.splits)
  then show ?thesis by (simp add: modified_items_def)
qed

lemma compare_properties_same:
  "valid_order (str_order it) \<Longrightarrow> compare_properties it ps ps = None"
  by (simp add: compare_properties_def Let_def set_diff_same valid_order_Nil
      modified_items_same compare_property_same)

lemma compare_properties_cc_same:
  "valid_order (str_order it) \<Longrightarrow> compare_properties_cc it ps ps = None"
  by (simp add: compare_properties_cc_def Let_def set_diff_same valid_order_Nil
      modified_items_same compare_property_cc_same)

lemma compare_io_same:
  "valid_order (str_order it) \<Longrightarrow> compare_io it xs xs t = None"
  by (simp add: compare_io_def Let_def set_diff_same valid_order_Nil
      modified_items_same compare_io_item_same)

lemma compare_io_cc_same:
  "valid_order (str_order it) \<Longrightarrow> compare_io_cc it xs xs = None"
  by (simp add: compare_io_cc_def Let_def set_diff_same valid_order_Nil
      modified_items_same compare_io_item_cc_same)

lemma compare_definitions_same: "compare_definitions ds ds = None"
  by (simp add: compare_definitions_def)

lemma group_flags_snd:
  "snd (group_flags l fs (out, d)) = snd (group_flags l' fs (out', d))"
proof (induction fs arbitrary: out out' d)
  case Nil
  then show ?case by simp
next
  case (Cons f fs)
  then show ?case by (cases "py_int (sf_value f)") simp_all
qed

lemma fold_zip_same:
  "fold (\<lambda>(css_flag, csgo_flag) m.
           case compare_spawnflag css_flag csgo_flag of
             Some flag_diff \<Rightarrow> dict_set m (lab csgo_flag) flag_diff
           | None \<Rightarrow> m) (zip xs xs) m = m"
  by (induction xs arbitrary: m) (simp_all add: compare_spawnflag_same)

lemma fold_unchanged: "(\<And>x a. f x a = a) \<Longrightarrow> fold f xs a = a"
  by (induction xs arbitrary: a) simp_all

lemma compare_spawnflags_cc_same:
  assumes "valid_order (int_order it)"
  shows "snd (compare_spawnflags_cc it fs fs) = None"
proof -
  obtain out1 d1 where g1: "group_flags ''Invalid flag value in CS:S FGD: '' fs ([], []) = (out1, d1)"
    by (cases "group_flags ''Invalid flag value in CS:S FGD: '' fs ([], [])")
  obtain out2 d2 where g2: "group_flags ''Invalid flag value in CS:GO FGD: '' fs (out1, []) = (out2, d2)"
    by (cases "group_flags ''Invalid flag value in CS:GO FGD: '' fs (out1, [])")
  have "d2 = d1"
    using group_flags_snd [of "''Invalid flag value in CS:GO FGD: ''" fs out1 "[]"
        "''Invalid flag value in CS:S FGD: ''" "[]"] g1 g2 by simp
  then show ?thesis
    by (simp add: compare_spawnflags_cc_def g1 g2 set_diff_same valid_order_Nil [OF assms]
        fold_zip_same fold_unchanged)
qed

lemma map_filter_None: "(\<And>x. f x = None) \<Longrightarrow> List.map_filter f xs = []"
  by (simp add: List.map_filter_def)

lemma compare_editor_data_same:
  assumes "valid_order (key_order it)"
  shows "compare_editor_data it xs xs =
    [(''new'', Blocks []), (''removed'', Blocks []), (''modified'', Payloads [])]"
proof -
  have "List.map_filter
          (\<lambda>k. case (dict_get d k, dict_get d k) of
                 (Some a, Some b) \<Rightarrow>
                   if ed_data a \<noteq> ed_data b then Some (k, ed_data a, ed_data b) else None
               | _ \<Rightarrow> None) ks = []" for d :: "(ed_key \<times> 'a FgdEditorData) list" and ks
    by (rule map_filter_None) (simp split: option.splits)
  then show ?thesis
    by (simp add: compare_editor_data_def Let_def set_diff_same valid_order_Nil [OF assms]
        List.map_filter_simps)
qed

lemma compare_entity_cc_same:
  assumes "valid_iter it"
  shows "snd (compare_entity_cc it e e) = no_diff_cc"
proof -
  from assms have s: "valid_order (str_order it)" and i: "valid_order (int_order it)"
    by (simp_all add: valid_iter_def)
  obtain out sd where c: "compare_spawnflags_cc it (e_spawnflags e) (e_spawnflags e) = (out, sd)"
    by (cases "compare_spawnflags_cc it (e_spawnflags e) (e_spawnflags e)")
  with compare_spawnflags_cc_same [OF i, of "e_spawnflags e"] have "sd = None" by simp
  with c show ?thesis
    by (simp add: compare_entity_cc_def no_diff_cc_def py_ne_same compare_properties_cc_same [OF s]
        compare_io_cc_same [OF s])
qed

lemma find_entity_Some:
  "n \<in> (\<lambda>e. lower (e_name e)) ` set es \<Longrightarrow> \<exists>e. find_entity es n = Some e"
  by (cases "find_entity es n") (auto simp: find_entity_def find_None_iff)

lemma modified_loop_cc_same:
  assumes "valid_iter it" and "set names \<subseteq> (\<lambda>e. lower (e_name e)) ` set es"
  shows "\<exists>out'. modified_loop_cc it es es names (out, []) = Inr (out', [])"
  using assms(2)
proof (induction names arbitrary: out)
  case Nil
  then show ?case by simp
next
  case (Cons n names)
  then obtain e where e: "find_entity es n = Some e"
    using find_entity_Some [of n es] by auto
  obtain printed d where c: "compare_entity_cc it e e = (printed, d)"
    by (cases "compare_entity_cc it e e")
  with compare_entity_cc_same [OF assms(1), of e] have d: "d = no_diff_cc" by simp
  have "\<not> has_keys_cc no_diff_cc" by (simp add: has_keys_cc_def no_diff_cc_def)
  with Cons e c d show ?case by simp
qed

lemma compare_fgds_cc_same:
  assumes "valid_iter it"
  shows "\<exists>out. compare_fgds_cc it A A =
    Inr (out, \<lparr>new_entities_cc = [], removed_entities_cc = [], modified_entities_cc = [],
               editor_data_changes =
                 [(''new'', Blocks []), (''removed'', Blocks []), (''modified'', Payloads [])]\<rparr>)"
proof -
  from assms have s: "valid_order (str_order it)" and k: "valid_order (key_order it)"
    by (simp_all add: valid_iter_def)
  let ?names = "map (\<lambda>e. lower (e_name e)) (entities A)"
  have "set (str_order it (set_inter ?names ?names)) \<subseteq> (\<lambda>e. lower (e_name e)) ` set (entities A)"
    by (simp add: valid_order_set [OF s] set_set_inter)
  from modified_loop_cc_same [OF assms this, of "[]"]
  obtain out where "modified_loop_cc it (entities A) (entities A)
      (str_order it (set_inter ?names ?names)) ([], []) = Inr (out, [])" by blast
  then show ?thesis
    by (simp add: compare_fgds_cc_def Let_def set_diff_same valid_order_Nil [OF s]
        compare_editor_data_same [OF k])
qed

lemma flag_dict_ok:
  "list_all (\<lambda>f. py_int (sf_value f) \<noteq> None) fs \<Longrightarrow> \<exists>d'. flag_dict d fs = Inr d'"
  by (induction fs arbitrary: d) auto

lemma spawnflag_step_same: "spawnflag_step d d v x = x"
  by (simp add: spawnflag_step_def compare_spawnflag_same split: option.splits)

lemma compare_spawnflags_same:
  assumes "list_all (\<lambda>f. py_int (sf_value f) \<noteq> None) fs"
  shows "compare_spawnflags it fs fs = Inr None"
proof -
  from flag_dict_ok [OF assms] obtain d where "flag_dict [] fs = Inr d" by blast
  then show ?thesis
    by (simp add: compare_spawnflags_def Let_def fold_unchanged spawnflag_step_same)
qed

lemma compare_entity_same:
  assumes "valid_iter it" and "list_all (\<lambda>f. py_int (sf_value f) \<noteq> None) (e_spawnflags e)"
  shows "compare_entity it e e = Inr empty_diff"
proof -
  from assms have s: "valid_order (str_order it)" by (simp add: valid_iter_def)
  show ?thesis
    by (simp add: compare_entity_def Let_def py_ne_same compare_definitions_same
        compare_properties_same [OF s] compare_io_same [OF s] compare_spawnflags_same [OF assms(2)]
        has_keys_def empty_diff_def)
qed

lemma find_entity_set: "find_entity es n = Some e \<Longrightarrow> e \<in> set es \<and> lower (e_name e) = n"
  by (auto simp: find_entity_def dest: find_Some_set)

lemma modified_loop_same:
  assumes "valid_iter it"
    and "list_all (\<lambda>e. list_all (\<lambda>f. py_int (sf_value f) \<noteq> None) (e_spawnflags e)) es"
    and "set names \<subseteq> (\<lambda>e. lower (e_name e)) ` set es"
  shows "modified_loop it es es names [] = Inr []"
  using assms(3)
proof (induction names)
  case Nil
  then show ?case by simp
next
  case (Cons n names)
  then obtain e where e: "find_entity es n = Some e"
    using find_entity_Some [of n es] by auto
  then have "e \<in> set es" by (simp add: find_entity_set)
  with assms(2) have "list_all (\<lambda>f. py_int (sf_value f) \<noteq> None) (e_spawnflags e)"
    by (simp add: list_all_iff)
  from compare_entity_same [OF assms(1) this]
  have c: "compare_entity it e e = Inr empty_diff" .
  have "\<not> has_keys empty_diff" by (simp add: has_keys_def empty_diff_def)
  with Cons e c show ?case by simp
qed

lemma issues_loop_same:
  assumes "valid_iter it" and "set names \<subseteq> (\<lambda>e. lower (e_name e)) ` set es"
  shows "issues_loop it es es names issues = Inr issues"
  using assms(2)
proof (induction names)
  case Nil
  then show ?case by simp
next
  case (Cons n names)
  then obtain e where e: "find_entity es n = Some e"
    using find_entity_Some [of n es] by auto
  from assms(1) have "valid_order (str_order it)" by (simp add: valid_iter_def)
  with Cons e show ?case by (simp add: set_diff_same valid_order_Nil)
qed

lemma compare_fgds_same:
  assumes "valid_iter it"
    and "list_all (\<lambda>e. list_all (\<lambda>f. py_int (sf_value f) \<noteq> None) (e_spawnflags e)) (entities A)"
  shows "compare_fgds it A A =
    Inr \<lparr>new_entities = [], removed_entities = [], modified_entities = [],
         backward_porting_issues = []\<rparr>"
proof -
  from assms have s: "valid_order (str_order it)" by (simp add: valid_iter_def)
  let ?names = "map (\<lambda>e. lower (e_name e)) (entities A)"
  have 1: "set (str_order it (set_inter ?names ?names)) \<subseteq> (\<lambda>e. lower (e_name e)) ` set (entities A)"
    by (simp add: valid_order_set [OF s] set_set_inter)
  have 2: "set (str_order it ?names) \<subseteq> (\<lambda>e. lower (e_name e)) ` set (entities A)"
    by (simp add: valid_order_set [OF s])
  show ?thesis
    by (simp add: compare_fgds_def Let_def set_diff_same valid_order_Nil [OF s]
        modified_loop_same [OF assms 1] issues_loop_same [OF assms(1) 2])
qed


lemma modified_items_fold:
  "modified_items cmp name_of css_dict csgo_dict names =
   fold (items_step cmp name_of css_dict csgo_dict) names []"
  unfolding modified_items_def items_step_def by (rule refl)




lemma modified_loop_Cons:
  "modified_loop it css csgo (n # names) m = Inr m' \<Longrightarrow>
   \<exists>a b d. find_entity css n = Some a \<and> find_entity csgo n = Some b
     \<and> compare_entity it a b = Inr d
     \<and> modified_loop it css csgo names (if has_keys d then dict_set m (e_name b) d else m) = Inr m'"
proof -
  assume h: "modified_loop it css csgo (n # names) m = Inr m'"
  show ?thesis
  proof (cases "find_entity css n")
    case None
    with h show ?thesis by simp
  next
    case a: (Some a)
    show ?thesis
    proof (cases "find_entity csgo n")
      case None
      with h a show ?thesis by simp
    next
      case b: (Some b)
      show ?thesis
      proof (cases "compare_entity it a b")
        case (Inl e)
        with h a b show ?thesis by simp
      next
        case (Inr d)
        with h a b show ?thesis by simp
      qed
    qed
  qed
qed


subsection \<open>Idempotence\<close>

text \<open>
  C1: \<^verbatim>\<open>compare(A, A)\<close> is to be an empty diff for every schema \<open>A\<close>. For a schema with a
  spawnflag whose value is not an integer the run of \<^verbatim>\<open>fgdcomparator.py\<close> ends in
  \<^verbatim>\<open>ValueError\<close> and yields no diff, while \<^verbatim>\<open>csgo_to_css_comparison.py\<close> prints its two
  warnings and returns the empty diff. (For the other schemas both runs return the empty
  diff: \<open>compare_fgds_same\<close> and \<open>compare_fgds_cc_same\<close>.)
\<close>

theorem idempotence_bad_flag:
  "compare_fgds insertion_order bad_flag_fgd bad_flag_fgd = Inl ValueError
   \<and> compare_fgds_cc insertion_order bad_flag_fgd bad_flag_fgd =
       Inr ([''Invalid flag value in CS:S FGD: abc'', ''Invalid flag value in CS:GO FGD: abc''],
            no_report_cc)"
  by code_simp

subsection \<open>Order of the emitted lists\<close>

text \<open>
  C2: every list of added and of removed keys is to be sorted. The lists of
  \<^verbatim>\<open>csgo_to_css_comparison.py\<close> are \<^verbatim>\<open>list(set)\<close> and come out in the iteration order of
  the set, here the two new entity names in descending order; the spawnflag lists of
  \<^verbatim>\<open>fgdcomparator.py\<close> are appended to in the iteration order of the set of values,
  which for the values 1 and 8 is 8 before 1.
\<close>

theorem unsorted_lists:
  "compare_fgds_cc reverse_order (example_fgd [])
     (example_fgd [example_entity ''trigger_a'' [] [] [] [], example_entity ''trigger_b'' [] [] [] []])
   = Inr ([], no_report_cc\<lparr>new_entities_cc := [''trigger_b'', ''trigger_a'']\<rparr>)
   \<and> \<not> sorted [''trigger_b'', ''trigger_a'']
   \<and> compare_spawnflags slot_order [] [example_flag ''1'' ''Locked'', example_flag ''8'' ''Silent'']
     = Inr (Some \<lparr>new = [example_flag ''8'' ''Silent'', example_flag ''1'' ''Locked''],
                  removed = [], modified = []\<rparr>)"
  by code_simp

theorem unsorted_lists_witness:
  "compare_spawnflags slot_order [] [example_flag ''1'' ''Locked'', example_flag ''8'' ''Silent'']
     = Inr (Some \<lparr>new = [example_flag ''8'' ''Silent'', example_flag ''1'' ''Locked''],
                  removed = [], modified = []\<rparr>)"
  using unsorted_lists by simp

subsection \<open>Definition clauses\<close>

text \<open>
  C5: base clauses are to be compared as a set, the other clauses as a multiset.
  \<^verbatim>\<open>compare_definitions\<close> of \<^verbatim>\<open>fgdcomparator.py\<close> compares the lists of base clauses with
  \<^verbatim>\<open>!=\<close>: two entities with the same base clauses in another order get a definitions
  diff whose added and removed lists are empty, and a clause that is not a base clause is
  not compared at all. \<^verbatim>\<open>csgo_to_css_comparison.py\<close> compares the sorted lists of all
  clauses and records no added or removed bases.
\<close>

theorem definitions_order_sensitive:
  "compare_definitions [base_clause ''Targetname'', base_clause ''Origin'']
       [base_clause ''Origin'', base_clause ''Targetname'']
     = Some \<lparr>dd_css = [base_clause ''Targetname'', base_clause ''Origin''],
             dd_csgo = [base_clause ''Origin'', base_clause ''Targetname''],
             dd_added = [], dd_removed = []\<rparr>
   \<and> compare_definitions [base_clause ''Origin'', size_clause] [base_clause ''Origin''] = None
   \<and> mset [base_clause ''Origin'', size_clause] \<noteq> mset [base_clause ''Origin'']"
  by code_simp

subsection \<open>Spawnflag values that are not integers\<close>

text \<open>
  C7: a spawnflag whose value is not an integer is to be skipped with a warning.
  \<^verbatim>\<open>compare_spawnflags\<close> of \<^verbatim>\<open>csgo_to_css_comparison.py\<close> does so; that of
  \<^verbatim>\<open>fgdcomparator.py\<close> calls \<^verbatim>\<open>int\<close> outside any \<^verbatim>\<open>try\<close>, and the comparison of the
  remaining flags never takes place.
\<close>

theorem bad_flag_aborts:
  "compare_spawnflags insertion_order
       [example_flag ''1'' ''Locked'', example_flag ''x2'' ''Broken''] [example_flag ''1'' ''Locked'']
     = Inl ValueError
   \<and> compare_spawnflags_cc insertion_order
       [example_flag ''1'' ''Locked'', example_flag ''x2'' ''Broken''] [example_flag ''1'' ''Locked'']
     = ([''Invalid flag value in CS:S FGD: x2''], None)"
  by code_simp

theorem bad_flag_aborts_witness:
  "compare_spawnflags insertion_order
       [example_flag ''1'' ''Locked'', example_flag ''x2'' ''Broken''] [example_flag ''1'' ''Locked'']
     = Inl ValueError"
  using bad_flag_aborts by simp

subsection \<open>Backward-porting issues\<close>

text \<open>
  C8: a property is to be a Medium issue exactly when it is in the added-properties set of
  its entity. The issue loop of \<^verbatim>\<open>compare_fgds\<close> takes the difference of the property
  names as written, \<^verbatim>\<open>compare_properties\<close> of their lower-cased forms: a property written
  \<^verbatim>\<open>Speed\<close> in the old schema and \<^verbatim>\<open>speed\<close> in the new one is a Medium issue of an
  entity that has no property diff and is not among the modified entities.
\<close>

theorem issue_without_added_property:
  "compare_fgds insertion_order
       (example_fgd [example_entity ''x'' [example_property ''Speed'' ''100''] [] [] []])
       (example_fgd [example_entity ''x'' [example_property ''speed'' ''100''] [] [] []])
     = Inr \<lparr>new_entities = [], removed_entities = [], modified_entities = [],
            backward_porting_issues = [property_issue ''x'' ''speed'']\<rparr>
   \<and> compare_properties insertion_order
       [example_property ''Speed'' ''100''] [example_property ''speed'' ''100''] = None"
  by code_simp

theorem issue_without_added_property_witness:
  "compare_properties insertion_order
       [example_property ''Speed'' ''100''] [example_property ''speed'' ''100''] = None"
  using issue_without_added_property by simp

subsection \<open>An input and an output of the same name\<close>

text \<open>
  C9: an input of one schema and an output of the other under the same name are to be
  reported as a type mismatch. Both files compare the inputs with the inputs and the
  outputs with the outputs, so the pair is never matched: the diff has a removed input
  and a new output. The check of the classes in \<^verbatim>\<open>compare_io_item\<close> of
  \<^verbatim>\<open>csgo_to_css_comparison.py\<close> is reached only for two items of one list;
  \<^verbatim>\<open>fgdcomparator.py\<close> has no such check.
\<close>

theorem direction_change_is_add_and_remove:
  "compare_entity_cc insertion_order
       (example_entity ''x'' [] [] [example_io FgdEntityInput ''Foo''] [])
       (example_entity ''x'' [] [] [] [example_io FgdEntityOutput ''Foo''])
     = ([], no_diff_cc\<lparr>c_inputs := Some \<lparr>new = [], removed = [''foo''], modified = []\<rparr>,
                       c_outputs := Some \<lparr>new = [''foo''], removed = [], modified = []\<rparr>\<rparr>)
   \<and> compare_io insertion_order [example_io FgdEntityInput ''Foo''] [] ''input''
     = Some \<lparr>new = [], removed = [''foo''], modified = []\<rparr>
   \<and> compare_io insertion_order [] [example_io FgdEntityOutput ''Foo''] ''output''
     = Some \<lparr>new = [''foo''], removed = [], modified = []\<rparr>
   \<and> compare_io_item (example_io FgdEntityInput ''Foo'') (example_io FgdEntityOutput ''Foo'') = None
   \<and> compare_io_item_cc (example_io FgdEntityInput ''Foo'') (example_io FgdEntityOutput ''Foo'')
     = Some [(''type'', PyStr ''FgdEntityInput'', PyStr ''FgdEntityOutput'')]"
  by code_simp

theorem direction_change_is_add_and_remove_witness:
  "compare_io insertion_order [example_io FgdEntityInput ''Foo''] [] ''input''
     = Some \<lparr>new = [], removed = [''foo''], modified = []\<rparr>"
  using direction_change_is_add_and_remove by simp

subsection \<open>The editor-data entry of the report\<close>

lemma valid_order_remdups: "valid_order remdups"
  by (simp add: valid_order_def)

lemma valid_iter_insertion_order: "valid_iter insertion_order"
  by (simp add: valid_iter_def insertion_order_def valid_order_def)

lemma modified_loop_cc_returns:
  assumes "set names \<subseteq> (\<lambda>e. lower (e_name e)) ` set css"
    and "set names \<subseteq> (\<lambda>e. lower (e_name e)) ` set csgo"
  shows "\<exists>out' m'. modified_loop_cc it css csgo names (out, m) = Inr (out', m')"
  using assms
proof (induction names arbitrary: out m)
  case Nil
  then show ?case by simp
next
  case (Cons n names)
  from Cons.prems obtain a b where a: "find_entity css n = Some a" and b: "find_entity csgo n = Some b"
    using find_entity_Some [of n css] find_entity_Some [of n csgo] by auto
  obtain printed d where c: "compare_entity_cc it a b = (printed, d)"
    by (cases "compare_entity_cc it a b")
  from Cons.prems have "set names \<subseteq> (\<lambda>e. lower (e_name e)) ` set css"
    "set names \<subseteq> (\<lambda>e. lower (e_name e)) ` set csgo" by auto
  from Cons.IH [OF this] a b c show ?case by simp
qed

lemma compare_fgds_cc_returns:
  assumes "valid_iter it"
  shows "\<exists>out r. compare_fgds_cc it A B = Inr (out, r)
     \<and> editor_data_changes r = compare_editor_data it (editor_data A) (editor_data B)"
proof -
  from assms have s: "valid_order (str_order it)" by (simp add: valid_iter_def)
  let ?a = "map (\<lambda>e. lower (e_name e)) (entities A)"
  let ?b = "map (\<lambda>e. lower (e_name e)) (entities B)"
  have 1: "set (str_order it (set_inter ?a ?b)) \<subseteq> (\<lambda>e. lower (e_name e)) ` set (entities A)"
    and 2: "set (str_order it (set_inter ?a ?b)) \<subseteq> (\<lambda>e. lower (e_name e)) ` set (entities B)"
    by (auto simp: valid_order_set [OF s] set_set_inter)
  from modified_loop_cc_returns [OF 1 2, of it "[]" "[]"]
  obtain out m where "modified_loop_cc it (entities A) (entities B)
      (str_order it (set_inter ?a ?b)) ([], []) = Inr (out, m)" by blast
  then show ?thesis by (simp add: compare_fgds_cc_def Let_def)
qed

lemma keys_compare_editor_data:
  "map fst (compare_editor_data it a b) = [''new'', ''removed'', ''modified'']"
  by (simp add: compare_editor_data_def Let_def)

text \<open>
  C10: for every pair of collections of metadata blocks \<^verbatim>\<open>compare_editor_data\<close> returns a
  dictionary with exactly the keys \<^verbatim>\<open>new\<close>, \<^verbatim>\<open>removed\<close> and \<^verbatim>\<open>modified\<close>, and every run
  of \<^verbatim>\<open>compare_fgds\<close> of \<^verbatim>\<open>csgo_to_css_comparison.py\<close> returns a report whose
  \<^verbatim>\<open>editor_data_changes\<close> entry is that dictionary. For two identical schemas the entry
  holds three empty collections, while the diffs of the properties, of the spawnflags and
  of the inputs and outputs are \<^verbatim>\<open>None\<close> and no entity is listed as modified.
\<close>

theorem editor_data_always_reported:
  assumes "valid_iter it"
  shows "map fst (compare_editor_data it a b) = [''new'', ''removed'', ''modified'']
    \<and> (\<exists>out r. compare_fgds_cc it A B = Inr (out, r)
          \<and> editor_data_changes r = compare_editor_data it (editor_data A) (editor_data B))
    \<and> (\<exists>out. compare_fgds_cc it A A =
          Inr (out, \<lparr>new_entities_cc = [], removed_entities_cc = [], modified_entities_cc = [],
                     editor_data_changes =
                       [(''new'', Blocks []), (''removed'', Blocks []), (''modified'', Payloads [])]\<rparr>))
    \<and> compare_properties_cc it ps ps = None
    \<and> snd (compare_spawnflags_cc it fs fs) = None
    \<and> compare_io_cc it xs xs = None"
proof -
  from assms have s: "valid_order (str_order it)" and i: "valid_order (int_order it)"
    by (simp_all add: valid_iter_def)
  show ?thesis
    using keys_compare_editor_data [of it a b] compare_fgds_cc_returns [OF assms, of A B]
      compare_fgds_cc_same [OF assms, of A] compare_properties_cc_same [OF s, of ps]
      compare_spawnflags_cc_same [OF i, of fs] compare_io_cc_same [OF s, of xs]
    by blast
qed

theorem editor_data_always_reported_witness:
  "compare_fgds_cc insertion_order visgroup_fgd visgroup_fgd =
     Inr ([], \<lparr>new_entities_cc = [], removed_entities_cc = [], modified_entities_cc = [],
               editor_data_changes =
                 [(''new'', Blocks []), (''removed'', Blocks []), (''modified'', Payloads [])]\<rparr>)
   \<and> compare_properties_cc insertion_order (e_properties (hd (entities visgroup_fgd)))
        (e_properties (hd (entities visgroup_fgd))) = None"
proof -
  have "compare_fgds_cc insertion_order visgroup_fgd visgroup_fgd =
     Inr ([], \<lparr>new_entities_cc = [], removed_entities_cc = [], modified_entities_cc = [],
               editor_data_changes =
                 [(''new'', Blocks []), (''removed'', Blocks []), (''modified'', Payloads [])]\<rparr>)"
    by code_simp
  with editor_data_always_reported [OF valid_iter_insertion_order,
      where ps = "e_properties (hd (entities visgroup_fgd))" and A = visgroup_fgd
        and B = visgroup_fgd and a = "editor_data visgroup_fgd" and b = "editor_data visgroup_fgd"
        and fs = "[]" and xs = "[]"]
  show ?thesis by simp
qed

subsection \<open>Matching by lower-cased name\<close>

lemma compare_fgds_Inr:
  assumes "compare_fgds it A B = Inr r"
  shows "\<exists>m issues.
    modified_loop it (entities A) (entities B)
      (str_order it (set_inter (map (\<lambda>e. lower (e_name e)) (entities A))
                       (map (\<lambda>e. lower (e_name e)) (entities B)))) [] = Inr m
    \<and> issues_loop it (entities A) (entities B)
        (str_order it (map (\<lambda>e. lower (e_name e)) (entities B))) [] = Inr issues
    \<and> r = \<lparr>new_entities = sort (str_order it (set_diff (map (\<lambda>e. lower (e_name e)) (entities B))
                                            (map (\<lambda>e. lower (e_name e)) (entities A)))),
           removed_entities = sort (str_order it (set_diff (map (\<lambda>e. lower (e_name e)) (entities A))
                                            (map (\<lambda>e. lower (e_name e)) (entities B)))),
           modified_entities = m, backward_porting_issues = issues\<rparr>"
proof -
  let ?ml = "modified_loop it (entities A) (entities B)
      (str_order it (set_inter (map (\<lambda>e. lower (e_name e)) (entities A))
                       (map (\<lambda>e. lower (e_name e)) (entities B)))) []"
  let ?il = "issues_loop it (entities A) (entities B)
        (str_order it (map (\<lambda>e. lower (e_name e)) (entities B))) []"
  show ?thesis
  proof (cases ?ml)
    case (Inl e)
    with assms show ?thesis by (simp add: compare_fgds_def Let_def)
  next
    case m: (Inr m)
    show ?thesis
    proof (cases ?il)
      case (Inl e)
      with assms m show ?thesis by (simp add: compare_fgds_def Let_def)
    next
      case (Inr issues)
      with assms m show ?thesis by (auto simp: compare_fgds_def Let_def)
    qed
  qed
qed


lemma compare_properties_Some:
  assumes "compare_properties it css csgo = Some d"
  shows "d = \<lparr>new = sort (str_order it (set_diff (dict_keys (dict_of (\<lambda>p. lower (p_name p)) csgo))
                                     (dict_keys (dict_of (\<lambda>p. lower (p_name p)) css)))),
             removed = sort (str_order it (set_diff (dict_keys (dict_of (\<lambda>p. lower (p_name p)) css))
                                     (dict_keys (dict_of (\<lambda>p. lower (p_name p)) csgo)))),
             modified = modified_items compare_property p_name
               (dict_of (\<lambda>p. lower (p_name p)) css) (dict_of (\<lambda>p. lower (p_name p)) csgo)
               (str_order it (set_inter (dict_keys (dict_of (\<lambda>p. lower (p_name p)) css))
                                (dict_keys (dict_of (\<lambda>p. lower (p_name p)) csgo))))\<rparr>"
  using assms by (simp add: compare_properties_def Let_def split: if_splits)

lemma compare_io_Some:
  assumes "compare_io it css csgo t = Some d"
  shows "d = \<lparr>new = sort (str_order it (set_diff (dict_keys (dict_of (\<lambda>p. lower (io_name p)) csgo))
                                     (dict_keys (dict_of (\<lambda>p. lower (io_name p)) css)))),
             removed = sort (str_order it (set_diff (dict_keys (dict_of (\<lambda>p. lower (io_name p)) css))
                                     (dict_keys (dict_of (\<lambda>p. lower (io_name p)) csgo)))),
             modified = modified_items compare_io_item io_name
               (dict_of (\<lambda>p. lower (io_name p)) css) (dict_of (\<lambda>p. lower (io_name p)) csgo)
               (str_order it (set_inter (dict_keys (dict_of (\<lambda>p. lower (io_name p)) css))
                                (dict_keys (dict_of (\<lambda>p. lower (io_name p)) csgo))))\<rparr>"
  using assms by (simp add: compare_io_def Let_def split: if_splits)


subsection \<open>The entries of the \<^verbatim>\<open>modified\<close> dictionaries\<close>

lemma items_step_entry:
  "items_step cmp name_of css_dict csgo_dict n m =
     (case item_entry cmp name_of css_dict csgo_dict n of
        Some (k, v) \<Rightarrow> dict_set m k v | None \<Rightarrow> m)"
  by (simp add: items_step_def item_entry_def split: option.splits)

lemma item_entry_key:
  assumes "item_entry cmp name_of css_dict (dict_of (\<lambda>x. key (name_of x)) xs) n = Some (k, v)"
  shows "key k = n"
proof -
  from assms obtain b where "dict_get (dict_of (\<lambda>x. key (name_of x)) xs) n = Some b" "k = name_of b"
    by (auto simp: item_entry_def split: option.splits)
  with dict_get_dict_of_key [of "\<lambda>x. key (name_of x)" xs n b] show ?thesis by simp
qed

lemma fold_items_step_list:
  assumes "distinct names"
    and "\<And>n k v. n \<in> set names \<Longrightarrow> item_entry cmp name_of css_dict csgo_dict n = Some (k, v) \<Longrightarrow> key k = n"
    and "\<And>k. k \<in> fst ` set m \<Longrightarrow> key k \<notin> set names"
  shows "fold (items_step cmp name_of css_dict csgo_dict) names m =
         m @ List.map_filter (item_entry cmp name_of css_dict csgo_dict) names"
  using assms
proof (induction names arbitrary: m)
  case Nil
  then show ?case by (simp add: List.map_filter_simps)
next
  case (Cons n names)
  show ?case
  proof (cases "item_entry cmp name_of css_dict csgo_dict n")
    case None
    have "fold (items_step cmp name_of css_dict csgo_dict) names m =
         m @ List.map_filter (item_entry cmp name_of css_dict csgo_dict) names"
    proof (rule Cons.IH)
      from Cons.prems(1) show "distinct names" by simp
      fix n' k v
      assume "n' \<in> set names" "item_entry cmp name_of css_dict csgo_dict n' = Some (k, v)"
      then show "key k = n'" using Cons.prems(2) [of n' k v] by simp
    next
      fix k assume "k \<in> fst ` set m"
      from Cons.prems(3) [OF this] show "key k \<notin> set names" by simp
    qed
    moreover from None have "items_step cmp name_of css_dict csgo_dict n m = m"
      by (simp add: items_step_entry)
    ultimately show ?thesis using None by (simp add: List.map_filter_simps)
  next
    case (Some kv)
    obtain k v where kv: "kv = (k, v)" by (cases kv)
    from Cons.prems(2) [of n k v] Some kv have kn: "key k = n" by simp
    have fresh: "k \<notin> fst ` set m"
    proof
      assume "k \<in> fst ` set m"
      from Cons.prems(3) [OF this] kn show False by simp
    qed
    have "fold (items_step cmp name_of css_dict csgo_dict) names (m @ [(k, v)]) =
         (m @ [(k, v)]) @ List.map_filter (item_entry cmp name_of css_dict csgo_dict) names"
    proof (rule Cons.IH)
      from Cons.prems(1) show "distinct names" by simp
      fix n' k' v'
      assume "n' \<in> set names" "item_entry cmp name_of css_dict csgo_dict n' = Some (k', v')"
      then show "key k' = n'" using Cons.prems(2) [of n' k' v'] by simp
    next
      fix k' assume "k' \<in> fst ` set (m @ [(k, v)])"
      then have "k' \<in> fst ` set m \<or> k' = k" by auto
      then show "key k' \<notin> set names"
      proof
        assume "k' \<in> fst ` set m"
        from Cons.prems(3) [OF this] show ?thesis by simp
      next
        assume "k' = k"
        with kn Cons.prems(1) show ?thesis by simp
      qed
    qed
    moreover from Some kv fresh have "items_step cmp name_of css_dict csgo_dict n m = m @ [(k, v)]"
      by (simp add: items_step_entry dict_set_fresh)
    ultimately show ?thesis using Some kv by (simp add: List.map_filter_simps)
  qed
qed

lemma modified_items_list:
  assumes "distinct names"
  shows "modified_items cmp name_of css_dict (dict_of (\<lambda>x. key (name_of x)) xs) names =
         List.map_filter (item_entry cmp name_of css_dict (dict_of (\<lambda>x. key (name_of x)) xs)) names"
proof -
  have "fold (items_step cmp name_of css_dict (dict_of (\<lambda>x. key (name_of x)) xs)) names [] =
     [] @ List.map_filter (item_entry cmp name_of css_dict (dict_of (\<lambda>x. key (name_of x)) xs)) names"
    by (rule fold_items_step_list [where key = key, OF assms]) (auto dest: item_entry_key)
  then show ?thesis by (simp add: modified_items_fold)
qed

lemma find_rev_Some_key:
  "find (\<lambda>x. f x = k) (rev xs) = Some a \<Longrightarrow> k \<in> f ` set xs"
  by (auto dest: find_Some_set)

text \<open>The entries of the \<open>modified\<close> dictionary of two collections, exactly.\<close>

lemma modified_items_exact:
  assumes s: "valid_order ord"
  shows "(k, v) \<in> set (modified_items cmp name_of (dict_of (\<lambda>x. key (name_of x)) css)
            (dict_of (\<lambda>x. key (name_of x)) csgo)
            (ord (set_inter (dict_keys (dict_of (\<lambda>x. key (name_of x)) css))
                   (dict_keys (dict_of (\<lambda>x. key (name_of x)) csgo))))) \<longleftrightarrow>
         (\<exists>a b. find (\<lambda>x. key (name_of x) = key k) (rev css) = Some a
            \<and> find (\<lambda>x. key (name_of x) = key k) (rev csgo) = Some b
            \<and> k = name_of b \<and> cmp a b = Some v)"
    (is "?l \<longleftrightarrow> ?r")
proof
  let ?cd = "dict_of (\<lambda>x. key (name_of x)) css" and ?gd = "dict_of (\<lambda>x. key (name_of x)) csgo"
  let ?names = "ord (set_inter (dict_keys ?cd) (dict_keys ?gd))"
  have d: "distinct ?names" by (rule valid_order_distinct [OF s])
  have l: "modified_items cmp name_of ?cd ?gd ?names = List.map_filter (item_entry cmp name_of ?cd ?gd) ?names"
    by (rule modified_items_list [OF d])
  {
    assume ?l
    with l obtain n where n: "n \<in> set ?names" and e: "item_entry cmp name_of ?cd ?gd n = Some (k, v)"
      by (auto simp: List.map_filter_def)
    from e obtain a b where a: "dict_get ?cd n = Some a" and b: "dict_get ?gd n = Some b"
      and k: "k = name_of b" and c: "cmp a b = Some v"
      by (auto simp: item_entry_def split: option.splits)
    from item_entry_key [OF e] have "key k = n" .
    with a b k c show ?r by (simp add: dict_get_dict_of)
  }
  {
    assume ?r
    then obtain a b where a: "find (\<lambda>x. key (name_of x) = key k) (rev css) = Some a"
      and b: "find (\<lambda>x. key (name_of x) = key k) (rev csgo) = Some b"
      and k: "k = name_of b" and c: "cmp a b = Some v" by blast
    from a b have "key k \<in> set ?names"
      by (auto simp: valid_order_set [OF s] set_set_inter set_dict_keys_dict_of
          dest!: find_rev_Some_key)
    moreover from a b k c have "item_entry cmp name_of ?cd ?gd (key k) = Some (k, v)"
      by (simp add: item_entry_def dict_get_dict_of)
    ultimately show ?l using l by (force simp: List.map_filter_def)
  }
qed

lemma compare_properties_cc_Some:
  assumes "compare_properties_cc it css csgo = Some d"
  shows "d = \<lparr>new = str_order it (set_diff (dict_keys (dict_of (\<lambda>p. lower (p_name p)) csgo))
                                     (dict_keys (dict_of (\<lambda>p. lower (p_name p)) css))),
             removed = str_order it (set_diff (dict_keys (dict_of (\<lambda>p. lower (p_name p)) css))
                                     (dict_keys (dict_of (\<lambda>p. lower (p_name p)) csgo))),
             modified = modified_items compare_property_cc p_name
               (dict_of (\<lambda>p. lower (p_name p)) css) (dict_of (\<lambda>p. lower (p_name p)) csgo)
               (str_order it (set_inter (dict_keys (dict_of (\<lambda>p. lower (p_name p)) css))
                                (dict_keys (dict_of (\<lambda>p. lower (p_name p)) csgo))))\<rparr>"
  using assms by (simp add: compare_properties_cc_def Let_def split: if_splits)

lemma compare_io_cc_Some:
  assumes "compare_io_cc it css csgo = Some d"
  shows "d = \<lparr>new = str_order it (set_diff (dict_keys (dict_of (\<lambda>p. lower (io_name p)) csgo))
                                     (dict_keys (dict_of (\<lambda>p. lower (io_name p)) css))),
             removed = str_order it (set_diff (dict_keys (dict_of (\<lambda>p. lower (io_name p)) css))
                                     (dict_keys (dict_of (\<lambda>p. lower (io_name p)) csgo))),
             modified = modified_items compare_io_item_cc io_name
               (dict_of (\<lambda>p. lower (io_name p)) css) (dict_of (\<lambda>p. lower (io_name p)) csgo)
               (str_order it (set_inter (dict_keys (dict_of (\<lambda>p. lower (io_name p)) css))
                                (dict_keys (dict_of (\<lambda>p. lower (io_name p)) csgo))))\<rparr>"
  using assms by (simp add: compare_io_cc_def Let_def split: if_splits)

lemma compare_properties_exact:
  assumes "valid_order (str_order it)" and "compare_properties it css csgo = Some d"
  shows "(k, pd) \<in> set (modified d) \<longleftrightarrow>
     (\<exists>a b. find (\<lambda>p. lower (p_name p) = lower k) (rev css) = Some a
        \<and> find (\<lambda>p. lower (p_name p) = lower k) (rev csgo) = Some b
        \<and> k = p_name b \<and> compare_property a b = Some pd)"
  using modified_items_exact [OF assms(1), of k pd compare_property p_name lower css csgo]
    compare_properties_Some [OF assms(2)] by simp

lemma compare_properties_cc_exact:
  assumes "valid_order (str_order it)" and "compare_properties_cc it css csgo = Some d"
  shows "(k, pd) \<in> set (modified d) \<longleftrightarrow>
     (\<exists>a b. find (\<lambda>p. lower (p_name p) = lower k) (rev css) = Some a
        \<and> find (\<lambda>p. lower (p_name p) = lower k) (rev csgo) = Some b
        \<and> k = p_name b \<and> compare_property_cc a b = Some pd)"
  using modified_items_exact [OF assms(1), of k pd compare_property_cc p_name lower css csgo]
    compare_properties_cc_Some [OF assms(2)] by simp

lemma compare_io_exact:
  assumes "valid_order (str_order it)" and "compare_io it css csgo t = Some d"
  shows "(k, pd) \<in> set (modified d) \<longleftrightarrow>
     (\<exists>a b. find (\<lambda>p. lower (io_name p) = lower k) (rev css) = Some a
        \<and> find (\<lambda>p. lower (io_name p) = lower k) (rev csgo) = Some b
        \<and> k = io_name b \<and> compare_io_item a b = Some pd)"
  using modified_items_exact [OF assms(1), of k pd compare_io_item io_name lower css csgo]
    compare_io_Some [OF assms(2)] by simp

lemma compare_io_cc_exact:
  assumes "valid_order (str_order it)" and "compare_io_cc it css csgo = Some d"
  shows "(k, pd) \<in> set (modified d) \<longleftrightarrow>
     (\<exists>a b. find (\<lambda>p. lower (io_name p) = lower k) (rev css) = Some a
        \<and> find (\<lambda>p. lower (io_name p) = lower k) (rev csgo) = Some b
        \<and> k = io_name b \<and> compare_io_item_cc a b = Some pd)"
  using modified_items_exact [OF assms(1), of k pd compare_io_item_cc io_name lower css csgo]
    compare_io_cc_Some [OF assms(2)] by simp

text \<open>The loops over the common entity names, exactly.\<close>

lemma set_dict_set_fresh: "k \<notin> fst ` set m \<Longrightarrow> set (dict_set m k v) = insert (k, v) (set m)"
  by (simp add: dict_set_fresh)

lemma modified_loop_exact:
  assumes "modified_loop it css csgo names m = Inr m'" and "distinct names"
    and "\<And>k. k \<in> fst ` set m \<Longrightarrow> lower k \<notin> set names"
  shows "(k, ed) \<in> set m' \<longleftrightarrow> (k, ed) \<in> set m \<or>
     (\<exists>a b. lower k \<in> set names \<and> find_entity css (lower k) = Some a
        \<and> find_entity csgo (lower k) = Some b
        \<and> k = e_name b \<and> compare_entity it a b = Inr ed \<and> has_keys ed)"
  using assms
proof (induction names arbitrary: m)
  case Nil
  then show ?case by auto
next
  case (Cons n names)
  from modified_loop_Cons [OF Cons.prems(1)] obtain a b d where
    a: "find_entity css n = Some a" and b: "find_entity csgo n = Some b"
    and d: "compare_entity it a b = Inr d"
    and rest: "modified_loop it css csgo names (if has_keys d then dict_set m (e_name b) d else m) = Inr m'"
    by blast
  from b have n: "lower (e_name b) = n" by (simp add: find_entity_set)
  let ?m = "if has_keys d then dict_set m (e_name b) d else m"
  have fresh: "e_name b \<notin> fst ` set m"
  proof
    assume "e_name b \<in> fst ` set m"
    from Cons.prems(3) [OF this] n show False by simp
  qed
  have sm: "set ?m = (if has_keys d then insert (e_name b, d) (set m) else set m)"
    by (simp add: set_dict_set_fresh [OF fresh])
  have dn: "distinct names" and nn: "n \<notin> set names" using Cons.prems(2) by simp_all
  have fr: "\<And>k. k \<in> fst ` set ?m \<Longrightarrow> lower k \<notin> set names"
  proof -
    fix k assume "k \<in> fst ` set ?m"
    with sm have "k = e_name b \<or> k \<in> fst ` set m" by (auto split: if_splits)
    then show "lower k \<notin> set names"
    proof
      assume "k = e_name b" with n nn show ?thesis by simp
    next
      assume "k \<in> fst ` set m"
      from Cons.prems(3) [OF this] show ?thesis by simp
    qed
  qed
  have ih: "(k, ed) \<in> set m' \<longleftrightarrow> (k, ed) \<in> set ?m \<or>
     (\<exists>a b. lower k \<in> set names \<and> find_entity css (lower k) = Some a
        \<and> find_entity csgo (lower k) = Some b
        \<and> k = e_name b \<and> compare_entity it a b = Inr ed \<and> has_keys ed)"
    by (rule Cons.IH [OF rest dn fr])
  have head: "(k, ed) \<in> set ?m \<longleftrightarrow> (k, ed) \<in> set m \<or>
     (lower k = n \<and> k = e_name b \<and> ed = d \<and> has_keys d)"
    using sm n by auto
  have "(lower k = n \<and> k = e_name b \<and> ed = d \<and> has_keys d) \<longleftrightarrow>
     (\<exists>a' b'. lower k = n \<and> find_entity css (lower k) = Some a'
        \<and> find_entity csgo (lower k) = Some b'
        \<and> k = e_name b' \<and> compare_entity it a' b' = Inr ed \<and> has_keys ed)"
    using a b d by auto
  with ih head show ?case by auto
qed

lemma modified_loop_cc_Cons:
  "modified_loop_cc it css csgo (n # names) (out, m) = Inr acc \<Longrightarrow>
   \<exists>a b. find_entity css n = Some a \<and> find_entity csgo n = Some b
     \<and> modified_loop_cc it css csgo names
          (out @ fst (compare_entity_cc it a b),
           if has_keys_cc (snd (compare_entity_cc it a b))
           then dict_set m (e_name b) (snd (compare_entity_cc it a b)) else m) = Inr acc"
proof -
  assume h: "modified_loop_cc it css csgo (n # names) (out, m) = Inr acc"
  show ?thesis
  proof (cases "find_entity css n")
    case None
    with h show ?thesis by simp
  next
    case a: (Some a)
    show ?thesis
    proof (cases "find_entity csgo n")
      case None
      with h a show ?thesis by simp
    next
      case b: (Some b)
      with h a show ?thesis by (simp add: split_beta)
    qed
  qed
qed

lemma modified_loop_cc_exact:
  assumes "modified_loop_cc it css csgo names (out, m) = Inr (out', m')" and "distinct names"
    and "\<And>k. k \<in> fst ` set m \<Longrightarrow> lower k \<notin> set names"
  shows "(k, ed) \<in> set m' \<longleftrightarrow> (k, ed) \<in> set m \<or>
     (\<exists>a b. lower k \<in> set names \<and> find_entity css (lower k) = Some a
        \<and> find_entity csgo (lower k) = Some b
        \<and> k = e_name b \<and> snd (compare_entity_cc it a b) = ed \<and> has_keys_cc ed)"
  using assms
proof (induction names arbitrary: out m)
  case Nil
  then show ?case by auto
next
  case (Cons n names)
  from modified_loop_cc_Cons [OF Cons.prems(1)] obtain a b where
    a: "find_entity css n = Some a" and b: "find_entity csgo n = Some b"
    and rest: "modified_loop_cc it css csgo names
          (out @ fst (compare_entity_cc it a b),
           if has_keys_cc (snd (compare_entity_cc it a b))
           then dict_set m (e_name b) (snd (compare_entity_cc it a b)) else m) = Inr (out', m')"
    by blast
  let ?d = "snd (compare_entity_cc it a b)"
  from b have n: "lower (e_name b) = n" by (simp add: find_entity_set)
  let ?m = "if has_keys_cc ?d then dict_set m (e_name b) ?d else m"
  have fresh: "e_name b \<notin> fst ` set m"
  proof
    assume "e_name b \<in> fst ` set m"
    from Cons.prems(3) [OF this] n show False by simp
  qed
  have sm: "set ?m = (if has_keys_cc ?d then insert (e_name b, ?d) (set m) else set m)"
    by (simp add: set_dict_set_fresh [OF fresh])
  have dn: "distinct names" and nn: "n \<notin> set names" using Cons.prems(2) by simp_all
  have fr: "\<And>k. k \<in> fst ` set ?m \<Longrightarrow> lower k \<notin> set names"
  proof -
    fix k assume "k \<in> fst ` set ?m"
    with sm have "k = e_name b \<or> k \<in> fst ` set m" by (auto split: if_splits)
    then show "lower k \<notin> set names"
    proof
      assume "k = e_name b" with n nn show ?thesis by simp
    next
      assume "k \<in> fst ` set m"
      from Cons.prems(3) [OF this] show ?thesis by simp
    qed
  qed
  have ih: "(k, ed) \<in> set m' \<longleftrightarrow> (k, ed) \<in> set ?m \<or>
     (\<exists>a b. lower k \<in> set names \<and> find_entity css (lower k) = Some a
        \<and> find_entity csgo (lower k) = Some b
        \<and> k = e_name b \<and> snd (compare_entity_cc it a b) = ed \<and> has_keys_cc ed)"
    by (rule Cons.IH [OF rest dn fr])
  have head: "(k, ed) \<in> set ?m \<longleftrightarrow> (k, ed) \<in> set m \<or>
     (lower k = n \<and> k = e_name b \<and> ed = ?d \<and> has_keys_cc ?d)"
    using sm n by auto
  have "(lower k = n \<and> k = e_name b \<and> ed = ?d \<and> has_keys_cc ?d) \<longleftrightarrow>
     (\<exists>a' b'. lower k = n \<and> find_entity css (lower k) = Some a'
        \<and> find_entity csgo (lower k) = Some b'
        \<and> k = e_name b' \<and> snd (compare_entity_cc it a' b') = ed \<and> has_keys_cc ed)"
    using a b by auto
  with ih head show ?case by auto
qed

lemma compare_fgds_entities_exact:
  assumes "valid_iter it" and "compare_fgds it A B = Inr r"
  shows "(k, ed) \<in> set (modified_entities r) \<longleftrightarrow>
     (\<exists>a b. find (\<lambda>e. lower (e_name e) = lower k) (entities A) = Some a
        \<and> find (\<lambda>e. lower (e_name e) = lower k) (entities B) = Some b
        \<and> k = e_name b \<and> compare_entity it a b = Inr ed \<and> has_keys ed)"
proof -
  from assms(1) have s: "valid_order (str_order it)" by (simp add: valid_iter_def)
  let ?names = "str_order it (set_inter (map (\<lambda>e. lower (e_name e)) (entities A))
                       (map (\<lambda>e. lower (e_name e)) (entities B)))"
  from compare_fgds_Inr [OF assms(2)] obtain m issues where
    m: "modified_loop it (entities A) (entities B) ?names [] = Inr m"
    and r: "modified_entities r = m" by force
  have x: "(k, ed) \<in> set m \<longleftrightarrow> (k, ed) \<in> set [] \<or>
     (\<exists>a b. lower k \<in> set ?names \<and> find_entity (entities A) (lower k) = Some a
        \<and> find_entity (entities B) (lower k) = Some b
        \<and> k = e_name b \<and> compare_entity it a b = Inr ed \<and> has_keys ed)"
    by (rule modified_loop_exact [OF m valid_order_distinct [OF s]]) simp
  have in_names: "lower k \<in> set ?names"
    if "find_entity (entities A) (lower k) = Some a" "find_entity (entities B) (lower k) = Some b"
    for a b
  proof -
    from that have "a \<in> set (entities A)" "lower (e_name a) = lower k"
      "b \<in> set (entities B)" "lower (e_name b) = lower k"
      by (simp_all add: find_entity_set)
    then have "lower k \<in> (\<lambda>e. lower (e_name e)) ` set (entities A)"
      "lower k \<in> (\<lambda>e. lower (e_name e)) ` set (entities B)" by force+
    then show ?thesis by (simp add: valid_order_set [OF s] set_set_inter)
  qed
  from x in_names r show ?thesis by (auto simp: find_entity_def)
qed

lemma compare_fgds_cc_Inr:
  assumes "compare_fgds_cc it A B = Inr (out, r)"
  shows "\<exists>m. modified_loop_cc it (entities A) (entities B)
      (str_order it (set_inter (map (\<lambda>e. lower (e_name e)) (entities A))
                       (map (\<lambda>e. lower (e_name e)) (entities B)))) ([], []) = Inr (out, m)
    \<and> r = \<lparr>new_entities_cc = str_order it (set_diff (map (\<lambda>e. lower (e_name e)) (entities B))
                                            (map (\<lambda>e. lower (e_name e)) (entities A))),
           removed_entities_cc = str_order it (set_diff (map (\<lambda>e. lower (e_name e)) (entities A))
                                            (map (\<lambda>e. lower (e_name e)) (entities B))),
           modified_entities_cc = m,
           editor_data_changes = compare_editor_data it (editor_data A) (editor_data B)\<rparr>"
proof -
  let ?ml = "modified_loop_cc it (entities A) (entities B)
      (str_order it (set_inter (map (\<lambda>e. lower (e_name e)) (entities A))
                       (map (\<lambda>e. lower (e_name e)) (entities B)))) ([], [])"
  show ?thesis
  proof (cases ?ml)
    case (Inl e)
    with assms show ?thesis by (simp add: compare_fgds_cc_def Let_def)
  next
    case (Inr acc)
    obtain o' m where "acc = (o', m)" by (cases acc)
    with Inr assms show ?thesis by (auto simp: compare_fgds_cc_def Let_def)
  qed
qed

lemma compare_fgds_cc_entities_exact:
  assumes "valid_iter it" and "compare_fgds_cc it A B = Inr (out, r)"
  shows "(k, ed) \<in> set (modified_entities_cc r) \<longleftrightarrow>
     (\<exists>a b. find (\<lambda>e. lower (e_name e) = lower k) (entities A) = Some a
        \<and> find (\<lambda>e. lower (e_name e) = lower k) (entities B) = Some b
        \<and> k = e_name b \<and> snd (compare_entity_cc it a b) = ed \<and> has_keys_cc ed)"
proof -
  from assms(1) have s: "valid_order (str_order it)" by (simp add: valid_iter_def)
  let ?names = "str_order it (set_inter (map (\<lambda>e. lower (e_name e)) (entities A))
                       (map (\<lambda>e. lower (e_name e)) (entities B)))"
  from compare_fgds_cc_Inr [OF assms(2)] obtain m where
    m: "modified_loop_cc it (entities A) (entities B) ?names ([], []) = Inr (out, m)"
    and r: "modified_entities_cc r = m" by force
  have x: "(k, ed) \<in> set m \<longleftrightarrow> (k, ed) \<in> set [] \<or>
     (\<exists>a b. lower k \<in> set ?names \<and> find_entity (entities A) (lower k) = Some a
        \<and> find_entity (entities B) (lower k) = Some b
        \<and> k = e_name b \<and> snd (compare_entity_cc it a b) = ed \<and> has_keys_cc ed)"
    by (rule modified_loop_cc_exact [OF m valid_order_distinct [OF s]]) simp
  have in_names: "lower k \<in> set ?names"
    if "find_entity (entities A) (lower k) = Some a" "find_entity (entities B) (lower k) = Some b"
    for a b
  proof -
    from that have "a \<in> set (entities A)" "lower (e_name a) = lower k"
      "b \<in> set (entities B)" "lower (e_name b) = lower k"
      by (simp_all add: find_entity_set)
    then have "lower k \<in> (\<lambda>e. lower (e_name e)) ` set (entities A)"
      "lower k \<in> (\<lambda>e. lower (e_name e)) ` set (entities B)" by force+
    then show ?thesis by (simp add: valid_order_set [OF s] set_set_inter)
  qed
  from x in_names r show ?thesis by (auto simp: find_entity_def)
qed

subsection \<open>The names in the report\<close>












subsection \<open>Duplicate keys\<close>

lemma items_step_entries:
  "(k, v) \<in> set (items_step cmp name_of css_dict csgo_dict n m) \<Longrightarrow>
   (k, v) \<in> set m \<or>
   (\<exists>a b. dict_get css_dict n = Some a \<and> dict_get csgo_dict n = Some b \<and> k = name_of b
      \<and> cmp a b = Some v)"
proof (cases "dict_get css_dict n")
  case None
  then show "(k, v) \<in> set (items_step cmp name_of css_dict csgo_dict n m) \<Longrightarrow> ?thesis"
    by (simp add: items_step_def)
next
  case a: (Some a)
  assume h: "(k, v) \<in> set (items_step cmp name_of css_dict csgo_dict n m)"
  show ?thesis
  proof (cases "dict_get csgo_dict n")
    case None
    with a h show ?thesis by (simp add: items_step_def)
  next
    case b: (Some b)
    show ?thesis
    proof (cases "cmp a b")
      case None
      with a b h show ?thesis by (simp add: items_step_def)
    next
      case (Some item_diff)
      with a b h have "(k, v) \<in> set (dict_set m (name_of b) item_diff)"
        by (simp add: items_step_def)
      with set_dict_set [of m "name_of b" item_diff]
      have "(k, v) = (name_of b, item_diff) \<or> (k, v) \<in> set m" by auto
      with a b Some show ?thesis by auto
    qed
  qed
qed

lemma fold_items_step_entries:
  "(k, v) \<in> set (fold (items_step cmp name_of css_dict csgo_dict) names m) \<Longrightarrow>
   (k, v) \<in> set m \<or>
   (\<exists>n a b. n \<in> set names \<and> dict_get css_dict n = Some a \<and> dict_get csgo_dict n = Some b
      \<and> k = name_of b \<and> cmp a b = Some v)"
proof (induction names arbitrary: m)
  case Nil
  then show ?case by simp
next
  case (Cons n names)
  from Cons.prems have "(k, v) \<in> set (fold (items_step cmp name_of css_dict csgo_dict) names
      (items_step cmp name_of css_dict csgo_dict n m))" by simp
  from Cons.IH [OF this] show ?case
  proof
    assume "(k, v) \<in> set (items_step cmp name_of css_dict csgo_dict n m)"
    from items_step_entries [OF this] show ?thesis by auto
  next
    assume "\<exists>n a b. n \<in> set names \<and> dict_get css_dict n = Some a \<and> dict_get csgo_dict n = Some b
      \<and> k = name_of b \<and> cmp a b = Some v"
    then show ?thesis by auto
  qed
qed

lemma modified_items_entries:
  "(k, v) \<in> set (modified_items cmp name_of css_dict csgo_dict names) \<Longrightarrow>
   \<exists>n a b. n \<in> set names \<and> dict_get css_dict n = Some a \<and> dict_get csgo_dict n = Some b
      \<and> k = name_of b \<and> cmp a b = Some v"
  using fold_items_step_entries [of k v cmp name_of css_dict csgo_dict names "[]"]
  by (simp add: modified_items_fold)

lemma compare_properties_last_wins:
  assumes "compare_properties it css csgo = Some d" and "(k, pd) \<in> set (modified d)"
  shows "\<exists>a b. find (\<lambda>p. lower (p_name p) = lower k) (rev css) = Some a
     \<and> find (\<lambda>p. lower (p_name p) = lower k) (rev csgo) = Some b
     \<and> k = p_name b \<and> compare_property a b = Some pd"
proof -
  from compare_properties_Some [OF assms(1)] assms(2)
  have "(k, pd) \<in> set (modified_items compare_property p_name
               (dict_of (\<lambda>p. lower (p_name p)) css) (dict_of (\<lambda>p. lower (p_name p)) csgo)
               (str_order it (set_inter (dict_keys (dict_of (\<lambda>p. lower (p_name p)) css))
                                (dict_keys (dict_of (\<lambda>p. lower (p_name p)) csgo)))))"
    by simp
  from modified_items_entries [OF this] obtain n a b where
    a: "dict_get (dict_of (\<lambda>p. lower (p_name p)) css) n = Some a"
    and b: "dict_get (dict_of (\<lambda>p. lower (p_name p)) csgo) n = Some b"
    and k: "k = p_name b" and c: "compare_property a b = Some pd" by blast
  from dict_get_dict_of_key [OF b] k have n: "n = lower k" by simp
  from a b n have "find (\<lambda>p. lower (p_name p) = lower k) (rev css) = Some a"
    "find (\<lambda>p. lower (p_name p) = lower k) (rev csgo) = Some b"
    by (simp_all add: dict_get_dict_of)
  with k c show ?thesis by blast
qed

lemma modified_loop_entries:
  "modified_loop it css csgo names m = Inr m' \<Longrightarrow> (k, ed) \<in> set m' \<Longrightarrow>
   (k, ed) \<in> set m \<or>
   (\<exists>a b. find_entity css (lower k) = Some a \<and> find_entity csgo (lower k) = Some b
      \<and> k = e_name b \<and> compare_entity it a b = Inr ed)"
proof (induction names arbitrary: m)
  case Nil
  then show ?case by auto
next
  case (Cons n names)
  from modified_loop_Cons [OF Cons.prems(1)] obtain a b d where
    a: "find_entity css n = Some a" and b: "find_entity csgo n = Some b"
    and d: "compare_entity it a b = Inr d"
    and rest: "modified_loop it css csgo names (if has_keys d then dict_set m (e_name b) d else m) = Inr m'"
    by blast
  from b have n: "lower (e_name b) = n" by (simp add: find_entity_set)
  from Cons.IH [OF rest Cons.prems(2)] show ?case
  proof
    assume "(k, ed) \<in> set (if has_keys d then dict_set m (e_name b) d else m)"
    with set_dict_set [of m "e_name b" d]
    have "(k, ed) = (e_name b, d) \<or> (k, ed) \<in> set m" by (auto split: if_splits)
    with a b d n show ?thesis by auto
  next
    assume "\<exists>a b. find_entity css (lower k) = Some a \<and> find_entity csgo (lower k) = Some b
      \<and> k = e_name b \<and> compare_entity it a b = Inr ed"
    then show ?thesis by blast
  qed
qed

lemma compare_fgds_first_entity:
  assumes "compare_fgds it A B = Inr r" and "(k, ed) \<in> set (modified_entities r)"
  shows "\<exists>a b. find (\<lambda>e. lower (e_name e) = lower k) (entities A) = Some a
     \<and> find (\<lambda>e. lower (e_name e) = lower k) (entities B) = Some b
     \<and> k = e_name b \<and> compare_entity it a b = Inr ed"
proof -
  from compare_fgds_Inr [OF assms(1)] obtain m issues where
    m: "modified_loop it (entities A) (entities B)
      (str_order it (set_inter (map (\<lambda>e. lower (e_name e)) (entities A))
                       (map (\<lambda>e. lower (e_name e)) (entities B)))) [] = Inr m"
    and r: "modified_entities r = m" by force
  from assms(2) r have "(k, ed) \<in> set m" by simp
  from modified_loop_entries [OF m this] show ?thesis by (simp add: find_entity_def)
qed

lemma compare_spawnflags_returns:
  assumes "list_all (\<lambda>f. py_int (sf_value f) \<noteq> None) fs"
    and "list_all (\<lambda>f. py_int (sf_value f) \<noteq> None) gs"
  shows "\<exists>d. compare_spawnflags it fs gs = Inr d"
proof -
  from flag_dict_ok [OF assms(1)] obtain d1 where 1: "flag_dict [] fs = Inr d1" by blast
  from flag_dict_ok [OF assms(2)] obtain d2 where 2: "flag_dict [] gs = Inr d2" by blast
  from 1 2 show ?thesis by (simp add: compare_spawnflags_def Let_def)
qed

lemma calculate_porting_complexity_eq:
  "d_changes_summary d = Some summary \<Longrightarrow>
   calculate_porting_complexity d =
     Inr (if weighted_sum d summary > 20 then ''High''
          else if weighted_sum d summary > 10 then ''Medium'' else ''Low'')"
  by (simp add: calculate_porting_complexity_def complexity_score_eq)

lemma compare_entity_returns:
  assumes "integer_flags a" and "integer_flags b"
  shows "\<exists>d. compare_entity it a b = Inr d"
proof -
  from assms compare_spawnflags_returns [of "e_spawnflags a" "e_spawnflags b" it]
  obtain sd where sd: "compare_spawnflags it (e_spawnflags a) (e_spawnflags b) = Inr sd"
    by (auto simp: integer_flags_def)
  show ?thesis
    by (simp add: compare_entity_def Let_def sd calculate_porting_complexity_eq)
qed

lemma modified_loop_returns:
  assumes "list_all integer_flags css" and "list_all integer_flags csgo"
    and "set names \<subseteq> (\<lambda>e. lower (e_name e)) ` set css"
    and "set names \<subseteq> (\<lambda>e. lower (e_name e)) ` set csgo"
  shows "\<exists>m'. modified_loop it css csgo names m = Inr m'"
  using assms(3,4)
proof (induction names arbitrary: m)
  case Nil
  then show ?case by simp
next
  case (Cons n names)
  from Cons.prems obtain a b where a: "find_entity css n = Some a" and b: "find_entity csgo n = Some b"
    using find_entity_Some [of n css] find_entity_Some [of n csgo] by auto
  from a b assms(1,2) have "integer_flags a" "integer_flags b"
    by (auto simp: list_all_iff dest: find_entity_set)
  from compare_entity_returns [OF this] obtain d where d: "compare_entity it a b = Inr d" by blast
  from Cons.prems have "set names \<subseteq> (\<lambda>e. lower (e_name e)) ` set css"
    "set names \<subseteq> (\<lambda>e. lower (e_name e)) ` set csgo" by auto
  from Cons.IH [OF this] a b d show ?case by simp
qed

lemma issues_loop_returns:
  assumes "set names \<subseteq> (\<lambda>e. lower (e_name e)) ` set csgo"
  shows "\<exists>issues'. issues_loop it css csgo names issues = Inr issues'"
  using assms
proof (induction names arbitrary: issues)
  case Nil
  then show ?case by simp
next
  case (Cons n names)
  from Cons.prems obtain b where b: "find_entity csgo n = Some b"
    using find_entity_Some [of n csgo] by auto
  from Cons.prems have "set names \<subseteq> (\<lambda>e. lower (e_name e)) ` set csgo" by simp
  from Cons.IH [OF this] b show ?case by (cases "find_entity css n") (simp_all add: Let_def)
qed

lemma compare_fgds_returns:
  assumes "valid_iter it" and "list_all integer_flags (entities A)"
    and "list_all integer_flags (entities B)"
  shows "\<exists>r. compare_fgds it A B = Inr r"
proof -
  from assms(1) have s: "valid_order (str_order it)" by (simp add: valid_iter_def)
  let ?a = "map (\<lambda>e. lower (e_name e)) (entities A)"
  let ?b = "map (\<lambda>e. lower (e_name e)) (entities B)"
  have 1: "set (str_order it (set_inter ?a ?b)) \<subseteq> (\<lambda>e. lower (e_name e)) ` set (entities A)"
    and 2: "set (str_order it (set_inter ?a ?b)) \<subseteq> (\<lambda>e. lower (e_name e)) ` set (entities B)"
    and 3: "set (str_order it ?b) \<subseteq> (\<lambda>e. lower (e_name e)) ` set (entities B)"
    by (auto simp: valid_order_set [OF s] set_set_inter)
  from modified_loop_returns [OF assms(2,3) 1 2, of it "[]"] obtain m where
    m: "modified_loop it (entities A) (entities B) (str_order it (set_inter ?a ?b)) [] = Inr m"
    by blast
  from issues_loop_returns [OF 3, of it "entities A" "[]"] obtain issues where
    i: "issues_loop it (entities A) (entities B) (str_order it ?b) [] = Inr issues" by blast
  from m i show ?thesis by (simp add: compare_fgds_def Let_def)
qed

lemma flag_dict_last_wins:
  "flag_dict d0 fs = Inr d \<Longrightarrow>
   dict_get d v = (case find (\<lambda>f. py_int (sf_value f) = Some v) (rev fs) of
                     Some f \<Rightarrow> Some f | None \<Rightarrow> dict_get d0 v)"
proof (induction fs arbitrary: d0)
  case Nil
  then show ?case by simp
next
  case (Cons f fs)
  from Cons.prems obtain w where w: "py_int (sf_value f) = Some w"
    and rest: "flag_dict (dict_set d0 w f) fs = Inr d"
    by (cases "py_int (sf_value f)") simp_all
  from Cons.IH [OF rest] w show ?case
    by (simp add: find_app dict_get_dict_set split: option.splits)
qed

lemma flags_of_dict_append:
  "flags_of (dict_append d k f) v = (if v = k then flags_of d v @ [f] else flags_of d v)"
  by (induction d k f rule: dict_append.induct) (auto simp: flags_of_def dict_get_def)

lemma group_flags_keeps_all:
  "flags_of (snd (group_flags l fs (out, d))) v =
   flags_of d v @ filter (\<lambda>f. py_int (sf_value f) = Some v) fs"
proof (induction fs arbitrary: out d)
  case Nil
  then show ?case by simp
next
  case (Cons f fs)
  then show ?case
    by (cases "py_int (sf_value f)") (simp_all add: flags_of_dict_append)
qed

lemma compare_io_last_wins:
  assumes "compare_io it css csgo t = Some d" and "(k, pd) \<in> set (modified d)"
  shows "\<exists>a b. find (\<lambda>p. lower (io_name p) = lower k) (rev css) = Some a
     \<and> find (\<lambda>p. lower (io_name p) = lower k) (rev csgo) = Some b
     \<and> k = io_name b \<and> compare_io_item a b = Some pd"
proof -
  from compare_io_Some [OF assms(1)] assms(2)
  have "(k, pd) \<in> set (modified_items compare_io_item io_name
               (dict_of (\<lambda>p. lower (io_name p)) css) (dict_of (\<lambda>p. lower (io_name p)) csgo)
               (str_order it (set_inter (dict_keys (dict_of (\<lambda>p. lower (io_name p)) css))
                                (dict_keys (dict_of (\<lambda>p. lower (io_name p)) csgo)))))"
    by simp
  from modified_items_entries [OF this] obtain n a b where
    a: "dict_get (dict_of (\<lambda>p. lower (io_name p)) css) n = Some a"
    and b: "dict_get (dict_of (\<lambda>p. lower (io_name p)) csgo) n = Some b"
    and k: "k = io_name b" and c: "compare_io_item a b = Some pd" by blast
  from dict_get_dict_of_key [OF b] k have n: "n = lower k" by simp
  from a b n have "find (\<lambda>p. lower (io_name p) = lower k) (rev css) = Some a"
    "find (\<lambda>p. lower (io_name p) = lower k) (rev csgo) = Some b"
    by (simp_all add: dict_get_dict_of)
  with k c show ?thesis by blast
qed

subsection \<open>What each file does for invalid flag values and for definition clauses\<close>

text \<open>
  \<^verbatim>\<open>compare_spawnflags\<close> of \<^verbatim>\<open>csgo_to_css_comparison.py\<close> prints one line for every flag
  whose value is not an integer and compares the other flags as if the invalid ones were
  not there.
\<close>

lemma group_flags_eq:
  "group_flags l fs (out, d) =
     (out @ map (\<lambda>f. l @ sf_value f) (filter (\<lambda>f. py_int (sf_value f) = None) fs),
      group_valid fs d)"
  by (induction fs arbitrary: out d) (auto split: option.splits)

lemma group_valid_filter:
  "group_valid (filter (\<lambda>f. py_int (sf_value f) \<noteq> None) fs) d = group_valid fs d"
  by (induction fs arbitrary: d) (auto split: option.splits)

lemma filter_invalid_valid:
  "filter (\<lambda>f. py_int (sf_value f) = None) (filter (\<lambda>f. py_int (sf_value f) \<noteq> None) fs) = []"
  by (induction fs) auto

lemma compare_spawnflags_cc_skips:
  "compare_spawnflags_cc it css_flags csgo_flags =
     (map (\<lambda>f. ''Invalid flag value in CS:S FGD: '' @ sf_value f)
        (filter (\<lambda>f. py_int (sf_value f) = None) css_flags)
      @ map (\<lambda>f. ''Invalid flag value in CS:GO FGD: '' @ sf_value f)
          (filter (\<lambda>f. py_int (sf_value f) = None) csgo_flags),
      snd (compare_spawnflags_cc it (filter (\<lambda>f. py_int (sf_value f) \<noteq> None) css_flags)
             (filter (\<lambda>f. py_int (sf_value f) \<noteq> None) csgo_flags)))"
  unfolding compare_spawnflags_cc_def group_flags_eq Let_def prod.case snd_conv
    group_valid_filter filter_invalid_valid
  by simp

text \<open>
  \<^verbatim>\<open>compare_entity\<close> of \<^verbatim>\<open>csgo_to_css_comparison.py\<close> reports a definitions diff exactly
  when the multisets of the clauses differ; \<^verbatim>\<open>compare_definitions\<close> of
  \<^verbatim>\<open>fgdcomparator.py\<close> looks at the base clauses only and reports a diff exactly when the
  two lists of base clauses differ.
\<close>

lemma inj_definition_key: "inj definition_key"
  by (rule injI) (simp add: definition_key_def)

lemma sort_key_eq_iff_mset:
  fixes f :: "'a \<Rightarrow> 'b::linorder"
  assumes "inj f"
  shows "sort_key f xs = sort_key f ys \<longleftrightarrow> mset xs = mset ys"
proof
  assume "sort_key f xs = sort_key f ys"
  then have "mset (sort_key f xs) = mset (sort_key f ys)" by simp
  then show "mset xs = mset ys" by simp
next
  assume m: "mset xs = mset ys"
  show "sort_key f xs = sort_key f ys"
  proof (rule sort_key_inj_key_eq)
    from m show "mset xs = mset (sort_key f ys)" by simp
    from assms show "inj_on f (set xs)" by (auto simp: inj_on_def inj_def)
    show "sorted (map f (sort_key f ys))" by simp
  qed
qed

lemma definitions_cc_multiset:
  "c_definitions (snd (compare_entity_cc it a b)) = None \<longleftrightarrow>
   mset (e_definitions a) = mset (e_definitions b)"
proof -
  obtain out sd where c: "compare_spawnflags_cc it (e_spawnflags a) (e_spawnflags b) = (out, sd)"
    by (cases "compare_spawnflags_cc it (e_spawnflags a) (e_spawnflags b)")
  show ?thesis
    using sort_key_eq_iff_mset [OF inj_definition_key, of "e_definitions a" "e_definitions b"]
    by (simp add: compare_entity_cc_def c)
qed

lemma compare_definitions_bases_only:
  "compare_definitions css_defs csgo_defs =
   compare_definitions (filter (\<lambda>d. def_name d = ''base'') css_defs)
     (filter (\<lambda>d. def_name d = ''base'') csgo_defs)"
  by (simp add: compare_definitions_def)

lemma compare_definitions_None:
  "compare_definitions css_defs csgo_defs = None \<longleftrightarrow>
   filter (\<lambda>d. def_name d = ''base'') css_defs = filter (\<lambda>d. def_name d = ''base'') csgo_defs"
  by (simp add: compare_definitions_def Let_def)

subsection \<open>The lookups of the loops succeed\<close>

text \<open>
  A loop over the keys common to two dictionaries looks each key up in both; the lookups
  never raise \<^verbatim>\<open>KeyError\<close>, since every key that the iteration yields is a key of both.
\<close>

lemma dict_get_keys: "dict_get d k \<noteq> None \<longleftrightarrow> k \<in> set (dict_keys d)"
  by (simp add: dict_get_def dict_keys_def map_of_eq_None_iff)

lemma common_keys_found:
  assumes "valid_order f" and "k \<in> set (f (set_inter (dict_keys css_dict) (dict_keys csgo_dict)))"
  shows "\<exists>a b. dict_get css_dict k = Some a \<and> dict_get csgo_dict k = Some b"
proof -
  from assms have "k \<in> set (dict_keys css_dict)" "k \<in> set (dict_keys csgo_dict)"
    by (simp_all add: valid_order_set set_set_inter)
  with dict_get_keys [of css_dict k] dict_get_keys [of csgo_dict k]
  show ?thesis by auto
qed

subsection \<open>Duplicate keys: what is compared\<close>

text \<open>The positional pairing of the flags of one value.\<close>

lemma pair_step_keys:
  "fst ` set (pair_step v (a, b) m) =
   fst ` set m \<union> (if compare_spawnflag a b \<noteq> None then {flag_label v b} else {})"
  by (auto simp: pair_step_def keys_dict_set split: option.splits)

lemma fold_pair_step_keys:
  "fst ` set (fold (pair_step v) ps m) =
   fst ` set m \<union> {flag_label v b |a b. (a, b) \<in> set ps \<and> compare_spawnflag a b \<noteq> None}"
proof (induction ps arbitrary: m)
  case Nil
  then show ?case by simp
next
  case (Cons p ps)
  obtain a b where p: "p = (a, b)" by (cases p)
  have "fst ` set (fold (pair_step v) (p # ps) m) =
     fst ` set (pair_step v (a, b) m) \<union>
       {flag_label v b |a b. (a, b) \<in> set ps \<and> compare_spawnflag a b \<noteq> None}"
    by (simp add: Cons.IH p)
  also have "\<dots> = fst ` set m \<union>
     {flag_label v b' |a' b'. (a', b') \<in> set (p # ps) \<and> compare_spawnflag a' b' \<noteq> None}"
  proof (cases "compare_spawnflag a b")
    case None
    have "{flag_label v b' |a' b'. (a', b') \<in> set ((a, b) # ps) \<and> compare_spawnflag a' b' \<noteq> None} =
         {flag_label v b' |a' b'. (a', b') \<in> set ps \<and> compare_spawnflag a' b' \<noteq> None}"
      using None by auto
    with None show ?thesis unfolding pair_step_keys p by simp
  next
    case (Some d)
    have "{flag_label v b' |a' b'. (a', b') \<in> set ((a, b) # ps) \<and> compare_spawnflag a' b' \<noteq> None} =
       insert (flag_label v b)
         {flag_label v b' |a' b'. (a', b') \<in> set ps \<and> compare_spawnflag a' b' \<noteq> None}"
      using Some by auto
    with Some show ?thesis unfolding pair_step_keys p by simp
  qed
  finally show ?case .
qed

lemma pair_step_entries:
  assumes "(l, fd) \<in> set (pair_step v (a, b) m)"
  shows "(l, fd) \<in> set m \<or> (l = flag_label v b \<and> compare_spawnflag a b = Some fd)"
proof (cases "compare_spawnflag a b")
  case None
  with assms show ?thesis by (simp add: pair_step_def)
next
  case (Some d)
  with assms have "(l, fd) \<in> set (dict_set m (flag_label v b) d)" by (simp add: pair_step_def)
  with set_dict_set [of m "flag_label v b" d] Some show ?thesis by auto
qed

lemma fold_pair_step_entries:
  "(l, fd) \<in> set (fold (pair_step v) ps m) \<Longrightarrow>
   (l, fd) \<in> set m \<or>
   (\<exists>a b. (a, b) \<in> set ps \<and> l = flag_label v b \<and> compare_spawnflag a b = Some fd)"
proof (induction ps arbitrary: m)
  case Nil
  then show ?case by simp
next
  case (Cons p ps)
  obtain a b where p: "p = (a, b)" by (cases p)
  from Cons.prems have "(l, fd) \<in> set (fold (pair_step v) ps (pair_step v (a, b) m))"
    by (simp add: p)
  from Cons.IH [OF this] show ?case
  proof
    assume "(l, fd) \<in> set (pair_step v (a, b) m)"
    from pair_step_entries [OF this] show ?thesis unfolding p by auto
  next
    assume "\<exists>a b. (a, b) \<in> set ps \<and> l = flag_label v b \<and> compare_spawnflag a b = Some fd"
    then show ?thesis by auto
  qed
qed

lemma fold_values_keys:
  "fst ` set (fold (\<lambda>v m. fold (pair_step v) (ps v) m) vs m) =
   fst ` set m \<union> {flag_label v b |v a b. v \<in> set vs \<and> (a, b) \<in> set (ps v)
                     \<and> compare_spawnflag a b \<noteq> None}"
proof (induction vs arbitrary: m)
  case Nil
  then show ?case by simp
next
  case (Cons v vs)
  have "fst ` set (fold (\<lambda>v m. fold (pair_step v) (ps v) m) (v # vs) m) =
     fst ` set (fold (pair_step v) (ps v) m) \<union>
       {flag_label v b |v a b. v \<in> set vs \<and> (a, b) \<in> set (ps v)
                     \<and> compare_spawnflag a b \<noteq> None}"
    by (simp add: Cons.IH)
  also have "\<dots> = fst ` set m \<union> {flag_label w b |w a b. w \<in> set (v # vs) \<and> (a, b) \<in> set (ps w)
                     \<and> compare_spawnflag a b \<noteq> None}"
    unfolding fold_pair_step_keys by fastforce
  finally show ?case .
qed

lemma fold_values_entries:
  "(l, fd) \<in> set (fold (\<lambda>v m. fold (pair_step v) (ps v) m) vs m) \<Longrightarrow>
   (l, fd) \<in> set m \<or>
   (\<exists>v a b. v \<in> set vs \<and> (a, b) \<in> set (ps v) \<and> l = flag_label v b
      \<and> compare_spawnflag a b = Some fd)"
proof (induction vs arbitrary: m)
  case Nil
  then show ?case by simp
next
  case (Cons v vs)
  from Cons.prems have "(l, fd) \<in> set (fold (\<lambda>v m. fold (pair_step v) (ps v) m) vs
      (fold (pair_step v) (ps v) m))" by simp
  from Cons.IH [OF this] show ?case
  proof
    assume "(l, fd) \<in> set (fold (pair_step v) (ps v) m)"
    from fold_pair_step_entries [OF this] show ?thesis by auto
  next
    assume "\<exists>v a b. v \<in> set vs \<and> (a, b) \<in> set (ps v) \<and> l = flag_label v b
      \<and> compare_spawnflag a b = Some fd"
    then show ?thesis by auto
  qed
qed

lemma pair_step_eq:
  "(\<lambda>(css_flag, csgo_flag) m.
       case compare_spawnflag css_flag csgo_flag of
         Some flag_diff \<Rightarrow> dict_set m (flag_label v csgo_flag) flag_diff
       | None \<Rightarrow> m) = pair_step v"
  by (auto simp: fun_eq_iff pair_step_def split: option.splits)

lemma modified_of_result:
  "modified_of (if filter (\<lambda>(k, v). truthy v)
                     [(''new'', Labels n), (''removed'', Labels r), (''modified'', Changes m)] \<noteq> []
                then Some (filter (\<lambda>(k, v). truthy v)
                     [(''new'', Labels n), (''removed'', Labels r), (''modified'', Changes m)])
                else None) = m"
  by (cases "n = []"; cases "r = []"; cases "m = []") (simp_all add: modified_of_def dict_get_def)

lemma labels_of_new_result:
  "labels_of ''new'' (if filter (\<lambda>(k, v). truthy v)
                     [(''new'', Labels n), (''removed'', Labels r), (''modified'', Changes m)] \<noteq> []
                then Some (filter (\<lambda>(k, v). truthy v)
                     [(''new'', Labels n), (''removed'', Labels r), (''modified'', Changes m)])
                else None) = n"
  by (cases "n = []"; cases "r = []"; cases "m = []") (simp_all add: labels_of_def dict_get_def)

lemma labels_of_removed_result:
  "labels_of ''removed'' (if filter (\<lambda>(k, v). truthy v)
                     [(''new'', Labels n), (''removed'', Labels r), (''modified'', Changes m)] \<noteq> []
                then Some (filter (\<lambda>(k, v). truthy v)
                     [(''new'', Labels n), (''removed'', Labels r), (''modified'', Changes m)])
                else None) = r"
  by (cases "n = []"; cases "r = []"; cases "m = []") (simp_all add: labels_of_def dict_get_def)

lemma modified_of_cc:
  "modified_of (snd (compare_spawnflags_cc it css csgo)) =
   fold (\<lambda>v m. fold (pair_step v)
                  (zip (flags_of (group_valid css []) v) (flags_of (group_valid csgo []) v)) m)
     (int_order it (set_inter (dict_keys (group_valid css [])) (dict_keys (group_valid csgo [])))) []"
  unfolding compare_spawnflags_cc_def group_flags_eq Let_def prod.case snd_conv pair_step_eq
    modified_of_result
  by (rule refl)

lemma labels_of_new_cc:
  "labels_of ''new'' (snd (compare_spawnflags_cc it css csgo)) =
   concat (map (\<lambda>v. map (flag_label v) (flags_of (group_valid csgo []) v))
             (int_order it (set_diff (dict_keys (group_valid csgo [])) (dict_keys (group_valid css [])))))"
  unfolding compare_spawnflags_cc_def group_flags_eq Let_def prod.case snd_conv pair_step_eq
    labels_of_new_result
  by (rule refl)

lemma labels_of_removed_cc:
  "labels_of ''removed'' (snd (compare_spawnflags_cc it css csgo)) =
   concat (map (\<lambda>v. map (flag_label v) (flags_of (group_valid css []) v))
             (int_order it (set_diff (dict_keys (group_valid css [])) (dict_keys (group_valid csgo [])))))"
  unfolding compare_spawnflags_cc_def group_flags_eq Let_def prod.case snd_conv pair_step_eq
    labels_of_removed_result
  by (rule refl)

lemma flags_of_group_valid: "flags_of (group_valid fs []) v = flags_with v fs"
  using group_flags_keeps_all [of "[]" fs "[]" "[]" v]
  by (simp add: group_flags_eq flags_with_def flags_of_def [of "[]"] dict_get_def)

lemma keys_dict_append: "fst ` set (dict_append d k f) = insert k (fst ` set d)"
  by (induction d k f rule: dict_append.induct) auto

lemma keys_group_valid:
  "fst ` set (group_valid fs d) = fst ` set d \<union> {v. \<exists>f \<in> set fs. py_int (sf_value f) = Some v}"
  by (induction fs arbitrary: d) (auto simp: keys_dict_append split: option.splits)

lemma keys_group_valid_flags_with:
  "v \<in> set (dict_keys (group_valid fs [])) \<longleftrightarrow> flags_with v fs \<noteq> []"
  by (auto simp: dict_keys_def keys_group_valid flags_with_def filter_empty_conv)

lemma spawnflags_cc_pairing_keys:
  assumes "valid_order (int_order it)"
  shows "l \<in> fst ` set (modified_of (snd (compare_spawnflags_cc it css csgo))) \<longleftrightarrow>
    (\<exists>v i. i < length (flags_with v css) \<and> i < length (flags_with v csgo)
       \<and> compare_spawnflag (flags_with v css ! i) (flags_with v csgo ! i) \<noteq> None
       \<and> l = flag_label v (flags_with v csgo ! i))"
proof -
  let ?vs = "int_order it (set_inter (dict_keys (group_valid css [])) (dict_keys (group_valid csgo [])))"
  have vs: "v \<in> set ?vs \<longleftrightarrow> flags_with v css \<noteq> [] \<and> flags_with v csgo \<noteq> []" for v
    by (simp add: valid_order_set [OF assms] set_set_inter keys_group_valid_flags_with)
  have "l \<in> fst ` set (modified_of (snd (compare_spawnflags_cc it css csgo))) \<longleftrightarrow>
     (\<exists>v a b. v \<in> set ?vs \<and> (a, b) \<in> set (zip (flags_with v css) (flags_with v csgo))
        \<and> compare_spawnflag a b \<noteq> None \<and> l = flag_label v b)"
    unfolding modified_of_cc fold_values_keys flags_of_group_valid by auto
  also have "\<dots> \<longleftrightarrow> (\<exists>v a b. (a, b) \<in> set (zip (flags_with v css) (flags_with v csgo))
        \<and> compare_spawnflag a b \<noteq> None \<and> l = flag_label v b)"
    unfolding vs by (metis empty_iff empty_set zip.simps(1) zip_Nil)
  also have "\<dots> \<longleftrightarrow> (\<exists>v i. i < length (flags_with v css) \<and> i < length (flags_with v csgo)
       \<and> compare_spawnflag (flags_with v css ! i) (flags_with v csgo ! i) \<noteq> None
       \<and> l = flag_label v (flags_with v csgo ! i))"
    unfolding in_set_zip by (simp, metis)
  finally show ?thesis .
qed

lemma spawnflags_cc_pairing_entries:
  assumes "(l, fd) \<in> set (modified_of (snd (compare_spawnflags_cc it css csgo)))"
  shows "\<exists>v i. i < length (flags_with v css) \<and> i < length (flags_with v csgo)
       \<and> compare_spawnflag (flags_with v css ! i) (flags_with v csgo ! i) = Some fd
       \<and> l = flag_label v (flags_with v csgo ! i)"
proof -
  let ?vs = "int_order it (set_inter (dict_keys (group_valid css [])) (dict_keys (group_valid csgo [])))"
  from assms have "(l, fd) \<in> set (fold (\<lambda>v m. fold (pair_step v)
      (zip (flags_with v css) (flags_with v csgo)) m) ?vs [])"
    unfolding modified_of_cc flags_of_group_valid .
  from fold_values_entries [OF this]
  obtain v a b where ab: "(a, b) \<in> set (zip (flags_with v css) (flags_with v csgo))"
    and l: "l = flag_label v b" and c: "compare_spawnflag a b = Some fd"
    by auto
  from ab obtain i where "flags_with v css ! i = a" "flags_with v csgo ! i = b"
    "i < length (flags_with v css)" "i < length (flags_with v csgo)"
    unfolding in_set_zip by auto
  with l c show ?thesis by blast
qed

lemma concat_labels:
  "set (concat (map (\<lambda>v. map (flag_label v) (fl v)) vs)) =
   {flag_label v f |v f. v \<in> set vs \<and> f \<in> set (fl v)}"
  by auto

lemma spawnflags_cc_new_labels:
  assumes "valid_order (int_order it)"
  shows "set (labels_of ''new'' (snd (compare_spawnflags_cc it css csgo))) =
     {flag_label v f |v f. f \<in> set (flags_with v csgo) \<and> flags_with v css = []}"
proof -
  have vs: "v \<in> set (int_order it (set_diff (dict_keys (group_valid csgo []))
                 (dict_keys (group_valid css [])))) \<longleftrightarrow>
      flags_with v csgo \<noteq> [] \<and> flags_with v css = []" for v
    by (simp add: valid_order_set [OF assms] set_set_diff keys_group_valid_flags_with)
  have "{flag_label v f |v f. (flags_with v csgo \<noteq> [] \<and> flags_with v css = [])
           \<and> f \<in> set (flags_with v csgo)} =
     {flag_label v f |v f. f \<in> set (flags_with v csgo) \<and> flags_with v css = []}"
    by force
  then show ?thesis
    unfolding labels_of_new_cc flags_of_group_valid concat_labels vs .
qed

lemma spawnflags_cc_removed_labels:
  assumes "valid_order (int_order it)"
  shows "set (labels_of ''removed'' (snd (compare_spawnflags_cc it css csgo))) =
     {flag_label v f |v f. f \<in> set (flags_with v css) \<and> flags_with v csgo = []}"
proof -
  have vs: "v \<in> set (int_order it (set_diff (dict_keys (group_valid css []))
                 (dict_keys (group_valid csgo [])))) \<longleftrightarrow>
      flags_with v css \<noteq> [] \<and> flags_with v csgo = []" for v
    by (simp add: valid_order_set [OF assms] set_set_diff keys_group_valid_flags_with)
  have "{flag_label v f |v f. (flags_with v css \<noteq> [] \<and> flags_with v csgo = [])
           \<and> f \<in> set (flags_with v css)} =
     {flag_label v f |v f. f \<in> set (flags_with v css) \<and> flags_with v csgo = []}"
    by force
  then show ?thesis
    unfolding labels_of_removed_cc flags_of_group_valid concat_labels vs .
qed

text \<open>The loop of \<^verbatim>\<open>fgdcomparator.py\<close> over all flag values.\<close>

lemma spawnflag_step_new:
  "set (new (spawnflag_step cd gd v D)) =
   set (new D) \<union> {b. dict_get cd v = None \<and> dict_get gd v = Some b}"
  by (auto simp: spawnflag_step_def split: option.splits)

lemma spawnflag_step_removed:
  "set (removed (spawnflag_step cd gd v D)) =
   set (removed D) \<union> {a. dict_get cd v = Some a \<and> dict_get gd v = None}"
  by (auto simp: spawnflag_step_def split: option.splits)

lemma spawnflag_step_keys:
  "fst ` set (modified (spawnflag_step cd gd v D)) =
   fst ` set (modified D) \<union>
     {str_int v |a b. dict_get cd v = Some a \<and> dict_get gd v = Some b \<and> compare_spawnflag a b \<noteq> None}"
  by (auto simp: spawnflag_step_def keys_dict_set split: option.splits)

lemma spawnflag_step_entries:
  assumes "(k, fd) \<in> set (modified (spawnflag_step cd gd v D))"
  shows "(k, fd) \<in> set (modified D) \<or>
     (\<exists>a b. k = str_int v \<and> dict_get cd v = Some a \<and> dict_get gd v = Some b
        \<and> compare_spawnflag a b = Some fd)"
proof (cases "dict_get cd v")
  case None
  with assms show ?thesis by (auto simp: spawnflag_step_def split: option.splits)
next
  case a: (Some a)
  show ?thesis
  proof (cases "dict_get gd v")
    case None
    with a assms show ?thesis by (auto simp: spawnflag_step_def)
  next
    case b: (Some b)
    show ?thesis
    proof (cases "compare_spawnflag a b")
      case None
      with a b assms show ?thesis by (auto simp: spawnflag_step_def)
    next
      case (Some d)
      with a b assms have "(k, fd) \<in> set (dict_set (modified D) (str_int v) d)"
        by (simp add: spawnflag_step_def)
      with set_dict_set [of "modified D" "str_int v" d] Some a b show ?thesis by auto
    qed
  qed
qed

lemma fold_spawnflag_step_new:
  "set (new (fold (spawnflag_step cd gd) vs D)) =
   set (new D) \<union> {b. \<exists>v \<in> set vs. dict_get cd v = None \<and> dict_get gd v = Some b}"
  by (induction vs arbitrary: D) (auto simp: spawnflag_step_new)

lemma fold_spawnflag_step_removed:
  "set (removed (fold (spawnflag_step cd gd) vs D)) =
   set (removed D) \<union> {a. \<exists>v \<in> set vs. dict_get cd v = Some a \<and> dict_get gd v = None}"
  by (induction vs arbitrary: D) (auto simp: spawnflag_step_removed)

lemma fold_spawnflag_step_keys:
  "fst ` set (modified (fold (spawnflag_step cd gd) vs D)) =
   fst ` set (modified D) \<union>
     {str_int v |v a b. v \<in> set vs \<and> dict_get cd v = Some a \<and> dict_get gd v = Some b
        \<and> compare_spawnflag a b \<noteq> None}"
proof (induction vs arbitrary: D)
  case Nil
  then show ?case by simp
next
  case (Cons v vs)
  have "fst ` set (modified (fold (spawnflag_step cd gd) (v # vs) D)) =
     fst ` set (modified (spawnflag_step cd gd v D)) \<union>
     {str_int v |v a b. v \<in> set vs \<and> dict_get cd v = Some a \<and> dict_get gd v = Some b
        \<and> compare_spawnflag a b \<noteq> None}"
    by (simp add: Cons.IH)
  also have "\<dots> = fst ` set (modified D) \<union>
     {str_int w |w a b. w \<in> set (v # vs) \<and> dict_get cd w = Some a \<and> dict_get gd w = Some b
        \<and> compare_spawnflag a b \<noteq> None}"
    unfolding spawnflag_step_keys by fastforce
  finally show ?case .
qed

lemma fold_spawnflag_step_entries:
  "(k, fd) \<in> set (modified (fold (spawnflag_step cd gd) vs D)) \<Longrightarrow>
   (k, fd) \<in> set (modified D) \<or>
     (\<exists>v a b. v \<in> set vs \<and> k = str_int v \<and> dict_get cd v = Some a \<and> dict_get gd v = Some b
        \<and> compare_spawnflag a b = Some fd)"
proof (induction vs arbitrary: D)
  case Nil
  then show ?case by simp
next
  case (Cons v vs)
  from Cons.prems have "(k, fd) \<in> set (modified (fold (spawnflag_step cd gd) vs
      (spawnflag_step cd gd v D)))" by simp
  from Cons.IH [OF this] show ?case
  proof
    assume "(k, fd) \<in> set (modified (spawnflag_step cd gd v D))"
    from spawnflag_step_entries [OF this] show ?thesis by auto
  next
    assume "\<exists>v a b. v \<in> set vs \<and> k = str_int v \<and> dict_get cd v = Some a \<and> dict_get gd v = Some b
        \<and> compare_spawnflag a b = Some fd"
    then show ?thesis by auto
  qed
qed

lemma flag_dict_last_flag:
  assumes "flag_dict [] fs = Inr d"
  shows "dict_get d v = last_flag v fs"
  using flag_dict_last_wins [OF assms, of v]
  by (simp add: last_flag_def dict_get_def split: option.splits)

lemma compare_spawnflags_Some:
  assumes "compare_spawnflags it css csgo = Inr (Some d)"
  shows "\<exists>cd gd. flag_dict [] css = Inr cd \<and> flag_dict [] csgo = Inr gd
    \<and> d = fold (spawnflag_step cd gd) (int_order it (set_union (dict_keys cd) (dict_keys gd)))
            \<lparr>new = [], removed = [], modified = []\<rparr>"
proof (cases "flag_dict [] css")
  case (Inl e)
  with assms show ?thesis by (simp add: compare_spawnflags_def)
next
  case cd: (Inr cd)
  show ?thesis
  proof (cases "flag_dict [] csgo")
    case (Inl e)
    with cd assms show ?thesis by (simp add: compare_spawnflags_def)
  next
    case (Inr gd)
    with cd assms show ?thesis by (simp add: compare_spawnflags_def Let_def split: if_splits)
  qed
qed

lemma compare_spawnflags_last_flag:
  assumes v: "valid_order (int_order it)" and c: "compare_spawnflags it css csgo = Inr (Some d)"
  shows "b \<in> set (new d) \<longleftrightarrow> (\<exists>v. last_flag v css = None \<and> last_flag v csgo = Some b)"
    and "a \<in> set (removed d) \<longleftrightarrow> (\<exists>v. last_flag v css = Some a \<and> last_flag v csgo = None)"
    and "k \<in> fst ` set (modified d) \<longleftrightarrow>
           (\<exists>v a b. k = str_int v \<and> last_flag v css = Some a \<and> last_flag v csgo = Some b
              \<and> compare_spawnflag a b \<noteq> None)"
    and "(k, fd) \<in> set (modified d) \<Longrightarrow>
           \<exists>v a b. k = str_int v \<and> last_flag v css = Some a \<and> last_flag v csgo = Some b
              \<and> compare_spawnflag a b = Some fd"
proof -
  from compare_spawnflags_Some [OF c] obtain cd gd where
    cd: "flag_dict [] css = Inr cd" and gd: "flag_dict [] csgo = Inr gd"
    and d: "d = fold (spawnflag_step cd gd) (int_order it (set_union (dict_keys cd) (dict_keys gd)))
            \<lparr>new = [], removed = [], modified = []\<rparr>" by blast
  note l = flag_dict_last_flag [OF cd] flag_dict_last_flag [OF gd]
  have vs: "w \<in> set (int_order it (set_union (dict_keys cd) (dict_keys gd))) \<longleftrightarrow>
      last_flag w css \<noteq> None \<or> last_flag w csgo \<noteq> None" for w
    using dict_get_keys [of cd w] dict_get_keys [of gd w]
    by (simp add: valid_order_set [OF v] set_union_def l)
  show "b \<in> set (new d) \<longleftrightarrow> (\<exists>v. last_flag v css = None \<and> last_flag v csgo = Some b)"
    unfolding d fold_spawnflag_step_new l by (auto simp: vs)
  show "a \<in> set (removed d) \<longleftrightarrow> (\<exists>v. last_flag v css = Some a \<and> last_flag v csgo = None)"
    unfolding d fold_spawnflag_step_removed l by (auto simp: vs)
  show "k \<in> fst ` set (modified d) \<longleftrightarrow>
           (\<exists>v a b. k = str_int v \<and> last_flag v css = Some a \<and> last_flag v csgo = Some b
              \<and> compare_spawnflag a b \<noteq> None)"
    unfolding d fold_spawnflag_step_keys l by (auto simp: vs)
  assume "(k, fd) \<in> set (modified d)"
  from fold_spawnflag_step_entries [OF this [unfolded d]]
  show "\<exists>v a b. k = str_int v \<and> last_flag v css = Some a \<and> last_flag v csgo = Some b
              \<and> compare_spawnflag a b = Some fd"
    unfolding l by auto
qed

lemma compare_spawnflags_Some_last_flag:
  assumes "valid_order (int_order it)" and "compare_spawnflags it css csgo = Inr (Some d)"
  shows "(\<forall>b. b \<in> set (new d) \<longleftrightarrow> (\<exists>v. last_flag v css = None \<and> last_flag v csgo = Some b))
    \<and> (\<forall>a. a \<in> set (removed d) \<longleftrightarrow> (\<exists>v. last_flag v css = Some a \<and> last_flag v csgo = None))
    \<and> (\<forall>k. k \<in> fst ` set (modified d) \<longleftrightarrow>
           (\<exists>v a b. k = str_int v \<and> last_flag v css = Some a \<and> last_flag v csgo = Some b
              \<and> compare_spawnflag a b \<noteq> None))
    \<and> (\<forall>k fd. (k, fd) \<in> set (modified d) \<longrightarrow>
           (\<exists>v a b. k = str_int v \<and> last_flag v css = Some a \<and> last_flag v csgo = Some b
              \<and> compare_spawnflag a b = Some fd))"
  using compare_spawnflags_last_flag [OF assms] by blast

text \<open>
  C6, as the code has it: a duplicate key raises no error. Every run of
  \<^verbatim>\<open>csgo_to_css_comparison.py\<close> returns a report, and so does every run of
  \<^verbatim>\<open>fgdcomparator.py\<close> on schemas whose spawnflag values are integers. In both files an
  entry of \<^verbatim>\<open>modified_entities\<close> is the diff of the first old and the first new entity of
  a lower-cased name, and an entry of the \<^verbatim>\<open>modified\<close> dictionary of properties or of io
  signals is the diff of the last old and the last new item of a lower-cased name; the
  other entities and items of that name are not compared. The flag dictionary of
  \<^verbatim>\<open>fgdcomparator.py\<close> keeps the last flag of a value, and its new, removed and modified
  flags are those of the last flags of each value. The grouping of
  \<^verbatim>\<open>csgo_to_css_comparison.py\<close> keeps all flags of a value in their order: a value that
  one schema lacks contributes the labels of all its flags, and the flags of a common value
  are paired by position; the \<^verbatim>\<open>modified\<close> dictionary has a key exactly for the labels of
  the pairs that differ, each entry is the diff of such a pair, and a flag beyond the
  length of the shorter list is not compared.
\<close>

theorem duplicates_raise_no_error:
  assumes "valid_iter it"
  shows "(\<exists>out r. compare_fgds_cc it A B = Inr (out, r))
    \<and> (list_all integer_flags (entities A) \<and> list_all integer_flags (entities B) \<longrightarrow>
         (\<exists>r. compare_fgds it A B = Inr r))
    \<and> (\<forall>r k ed. compare_fgds it A B = Inr r \<longrightarrow>
         ((k, ed) \<in> set (modified_entities r) \<longleftrightarrow>
          (\<exists>a b. find (\<lambda>e. lower (e_name e) = lower k) (entities A) = Some a
             \<and> find (\<lambda>e. lower (e_name e) = lower k) (entities B) = Some b
             \<and> k = e_name b \<and> compare_entity it a b = Inr ed \<and> has_keys ed)))
    \<and> (\<forall>out r k ed. compare_fgds_cc it A B = Inr (out, r) \<longrightarrow>
         ((k, ed) \<in> set (modified_entities_cc r) \<longleftrightarrow>
          (\<exists>a b. find (\<lambda>e. lower (e_name e) = lower k) (entities A) = Some a
             \<and> find (\<lambda>e. lower (e_name e) = lower k) (entities B) = Some b
             \<and> k = e_name b \<and> snd (compare_entity_cc it a b) = ed \<and> has_keys_cc ed)))
    \<and> (\<forall>d k pd. compare_properties it css_props csgo_props = Some d \<longrightarrow>
         ((k, pd) \<in> set (modified d) \<longleftrightarrow>
          (\<exists>a b. find (\<lambda>p. lower (p_name p) = lower k) (rev css_props) = Some a
             \<and> find (\<lambda>p. lower (p_name p) = lower k) (rev csgo_props) = Some b
             \<and> k = p_name b \<and> compare_property a b = Some pd)))
    \<and> (\<forall>d k pd. compare_properties_cc it css_props csgo_props = Some d \<longrightarrow>
         ((k, pd) \<in> set (modified d) \<longleftrightarrow>
          (\<exists>a b. find (\<lambda>p. lower (p_name p) = lower k) (rev css_props) = Some a
             \<and> find (\<lambda>p. lower (p_name p) = lower k) (rev csgo_props) = Some b
             \<and> k = p_name b \<and> compare_property_cc a b = Some pd)))
    \<and> (\<forall>d k pd. compare_io it css_io csgo_io io_type = Some d \<longrightarrow>
         ((k, pd) \<in> set (modified d) \<longleftrightarrow>
          (\<exists>a b. find (\<lambda>p. lower (io_name p) = lower k) (rev css_io) = Some a
             \<and> find (\<lambda>p. lower (io_name p) = lower k) (rev csgo_io) = Some b
             \<and> k = io_name b \<and> compare_io_item a b = Some pd)))
    \<and> (\<forall>d k pd. compare_io_cc it css_io csgo_io = Some d \<longrightarrow>
         ((k, pd) \<in> set (modified d) \<longleftrightarrow>
          (\<exists>a b. find (\<lambda>p. lower (io_name p) = lower k) (rev css_io) = Some a
             \<and> find (\<lambda>p. lower (io_name p) = lower k) (rev csgo_io) = Some b
             \<and> k = io_name b \<and> compare_io_item_cc a b = Some pd)))
    \<and> (\<forall>d v. flag_dict [] css_flags = Inr d \<longrightarrow> dict_get d v = last_flag v css_flags)
    \<and> (\<forall>d. compare_spawnflags it css_flags csgo_flags = Inr (Some d) \<longrightarrow>
         (\<forall>b. b \<in> set (new d) \<longleftrightarrow>
            (\<exists>v. last_flag v css_flags = None \<and> last_flag v csgo_flags = Some b))
         \<and> (\<forall>a. a \<in> set (removed d) \<longleftrightarrow>
            (\<exists>v. last_flag v css_flags = Some a \<and> last_flag v csgo_flags = None))
         \<and> (\<forall>k. k \<in> fst ` set (modified d) \<longleftrightarrow>
            (\<exists>v a b. k = str_int v \<and> last_flag v css_flags = Some a
               \<and> last_flag v csgo_flags = Some b \<and> compare_spawnflag a b \<noteq> None))
         \<and> (\<forall>k fd. (k, fd) \<in> set (modified d) \<longrightarrow>
            (\<exists>v a b. k = str_int v \<and> last_flag v css_flags = Some a
               \<and> last_flag v csgo_flags = Some b \<and> compare_spawnflag a b = Some fd)))
    \<and> (\<forall>v. flags_of (snd (group_flags label css_flags ([], []))) v = flags_with v css_flags)
    \<and> set (labels_of ''new'' (snd (compare_spawnflags_cc it css_flags csgo_flags))) =
         {flag_label v f |v f. f \<in> set (flags_with v csgo_flags) \<and> flags_with v css_flags = []}
    \<and> set (labels_of ''removed'' (snd (compare_spawnflags_cc it css_flags csgo_flags))) =
         {flag_label v f |v f. f \<in> set (flags_with v css_flags) \<and> flags_with v csgo_flags = []}
    \<and> (\<forall>l. l \<in> fst ` set (modified_of (snd (compare_spawnflags_cc it css_flags csgo_flags))) \<longleftrightarrow>
         (\<exists>v i. i < length (flags_with v css_flags) \<and> i < length (flags_with v csgo_flags)
            \<and> compare_spawnflag (flags_with v css_flags ! i) (flags_with v csgo_flags ! i) \<noteq> None
            \<and> l = flag_label v (flags_with v csgo_flags ! i)))
    \<and> (\<forall>l fd. (l, fd) \<in> set (modified_of (snd (compare_spawnflags_cc it css_flags csgo_flags))) \<longrightarrow>
         (\<exists>v i. i < length (flags_with v css_flags) \<and> i < length (flags_with v csgo_flags)
            \<and> compare_spawnflag (flags_with v css_flags ! i) (flags_with v csgo_flags ! i) = Some fd
            \<and> l = flag_label v (flags_with v csgo_flags ! i)))"
proof -
  from assms have s: "valid_order (str_order it)" and i: "valid_order (int_order it)"
    by (simp_all add: valid_iter_def)
  have 1: "\<exists>out r. compare_fgds_cc it A B = Inr (out, r)"
    using compare_fgds_cc_returns [OF assms, of A B] by blast
  have 2: "list_all integer_flags (entities A) \<and> list_all integer_flags (entities B) \<longrightarrow>
         (\<exists>r. compare_fgds it A B = Inr r)"
    using compare_fgds_returns [OF assms] by blast
  have 3: "\<forall>r k ed. compare_fgds it A B = Inr r \<longrightarrow>
         ((k, ed) \<in> set (modified_entities r) \<longleftrightarrow>
          (\<exists>a b. find (\<lambda>e. lower (e_name e) = lower k) (entities A) = Some a
             \<and> find (\<lambda>e. lower (e_name e) = lower k) (entities B) = Some b
             \<and> k = e_name b \<and> compare_entity it a b = Inr ed \<and> has_keys ed))"
    using compare_fgds_entities_exact [OF assms] by blast
  have 4: "\<forall>out r k ed. compare_fgds_cc it A B = Inr (out, r) \<longrightarrow>
         ((k, ed) \<in> set (modified_entities_cc r) \<longleftrightarrow>
          (\<exists>a b. find (\<lambda>e. lower (e_name e) = lower k) (entities A) = Some a
             \<and> find (\<lambda>e. lower (e_name e) = lower k) (entities B) = Some b
             \<and> k = e_name b \<and> snd (compare_entity_cc it a b) = ed \<and> has_keys_cc ed))"
    using compare_fgds_cc_entities_exact [OF assms] by blast
  have 5: "\<forall>d k pd. compare_properties it css_props csgo_props = Some d \<longrightarrow>
         ((k, pd) \<in> set (modified d) \<longleftrightarrow>
          (\<exists>a b. find (\<lambda>p. lower (p_name p) = lower k) (rev css_props) = Some a
             \<and> find (\<lambda>p. lower (p_name p) = lower k) (rev csgo_props) = Some b
             \<and> k = p_name b \<and> compare_property a b = Some pd))"
    using compare_properties_exact [OF s] by blast
  have 6: "\<forall>d k pd. compare_properties_cc it css_props csgo_props = Some d \<longrightarrow>
         ((k, pd) \<in> set (modified d) \<longleftrightarrow>
          (\<exists>a b. find (\<lambda>p. lower (p_name p) = lower k) (rev css_props) = Some a
             \<and> find (\<lambda>p. lower (p_name p) = lower k) (rev csgo_props) = Some b
             \<and> k = p_name b \<and> compare_property_cc a b = Some pd))"
    using compare_properties_cc_exact [OF s] by blast
  have 7: "\<forall>d k pd. compare_io it css_io csgo_io io_type = Some d \<longrightarrow>
         ((k, pd) \<in> set (modified d) \<longleftrightarrow>
          (\<exists>a b. find (\<lambda>p. lower (io_name p) = lower k) (rev css_io) = Some a
             \<and> find (\<lambda>p. lower (io_name p) = lower k) (rev csgo_io) = Some b
             \<and> k = io_name b \<and> compare_io_item a b = Some pd))"
    using compare_io_exact [OF s] by blast
  have 8: "\<forall>d k pd. compare_io_cc it css_io csgo_io = Some d \<longrightarrow>
         ((k, pd) \<in> set (modified d) \<longleftrightarrow>
          (\<exists>a b. find (\<lambda>p. lower (io_name p) = lower k) (rev css_io) = Some a
             \<and> find (\<lambda>p. lower (io_name p) = lower k) (rev csgo_io) = Some b
             \<and> k = io_name b \<and> compare_io_item_cc a b = Some pd))"
    using compare_io_cc_exact [OF s] by blast
  have 9: "\<forall>d v. flag_dict [] css_flags = Inr d \<longrightarrow> dict_get d v = last_flag v css_flags"
    using flag_dict_last_flag by blast
  have 10: "\<forall>d. compare_spawnflags it css_flags csgo_flags = Inr (Some d) \<longrightarrow>
         (\<forall>b. b \<in> set (new d) \<longleftrightarrow>
            (\<exists>v. last_flag v css_flags = None \<and> last_flag v csgo_flags = Some b))
         \<and> (\<forall>a. a \<in> set (removed d) \<longleftrightarrow>
            (\<exists>v. last_flag v css_flags = Some a \<and> last_flag v csgo_flags = None))
         \<and> (\<forall>k. k \<in> fst ` set (modified d) \<longleftrightarrow>
            (\<exists>v a b. k = str_int v \<and> last_flag v css_flags = Some a
               \<and> last_flag v csgo_flags = Some b \<and> compare_spawnflag a b \<noteq> None))
         \<and> (\<forall>k fd. (k, fd) \<in> set (modified d) \<longrightarrow>
            (\<exists>v a b. k = str_int v \<and> last_flag v css_flags = Some a
               \<and> last_flag v csgo_flags = Some b \<and> compare_spawnflag a b = Some fd))"
    using compare_spawnflags_Some_last_flag [OF i] by (intro allI impI)
  have 11: "\<forall>v. flags_of (snd (group_flags label css_flags ([], []))) v = flags_with v css_flags"
    using flags_of_group_valid by (simp add: group_flags_eq)
  note 12 = spawnflags_cc_new_labels [OF i, of css_flags csgo_flags]
  note 13 = spawnflags_cc_removed_labels [OF i, of css_flags csgo_flags]
  have 14: "\<forall>l. l \<in> fst ` set (modified_of (snd (compare_spawnflags_cc it css_flags csgo_flags))) \<longleftrightarrow>
         (\<exists>v i. i < length (flags_with v css_flags) \<and> i < length (flags_with v csgo_flags)
            \<and> compare_spawnflag (flags_with v css_flags ! i) (flags_with v csgo_flags ! i) \<noteq> None
            \<and> l = flag_label v (flags_with v csgo_flags ! i))"
    using spawnflags_cc_pairing_keys [OF i] by blast
  have 15: "\<forall>l fd. (l, fd) \<in> set (modified_of (snd (compare_spawnflags_cc it css_flags csgo_flags))) \<longrightarrow>
         (\<exists>v i. i < length (flags_with v css_flags) \<and> i < length (flags_with v csgo_flags)
            \<and> compare_spawnflag (flags_with v css_flags ! i) (flags_with v csgo_flags ! i) = Some fd
            \<and> l = flag_label v (flags_with v csgo_flags ! i))"
    using spawnflags_cc_pairing_entries by blast
  from 1 2 3 4 5 6 7 8 9 10 11 12 13 14 15 show ?thesis by (intro conjI)
qed

theorem duplicates_raise_no_error_witness:
  "(\<exists>out r. compare_fgds_cc insertion_order dup_c dup_b = Inr (out, r))
   \<and> list_all integer_flags (entities dup_c) \<and> list_all integer_flags (entities dup_b)
   \<and> (\<exists>r. compare_fgds insertion_order dup_c dup_b = Inr r)
   \<and> compare_fgds insertion_order dup_c dup_b = Inr dup_report
   \<and> (\<exists>a b. find (\<lambda>e. lower (e_name e) = lower ''x'') (entities dup_c) = Some a
         \<and> find (\<lambda>e. lower (e_name e) = lower ''x'') (entities dup_b) = Some b
         \<and> ''x'' = e_name b \<and> compare_entity insertion_order a b = Inr dup_entity_diff
         \<and> has_keys dup_entity_diff)
   \<and> compare_fgds_cc insertion_order dup_c dup_b = Inr ([], dup_report_cc)
   \<and> (\<exists>a b. find (\<lambda>e. lower (e_name e) = lower ''x'') (entities dup_c) = Some a
         \<and> find (\<lambda>e. lower (e_name e) = lower ''x'') (entities dup_b) = Some b
         \<and> ''x'' = e_name b \<and> snd (compare_entity_cc insertion_order a b) = dup_entity_diff_cc
         \<and> has_keys_cc dup_entity_diff_cc)
   \<and> compare_properties insertion_order
        [example_property ''speed'' ''100'', example_property ''Speed'' ''150'']
        [example_property ''speed'' ''300''] = Some dup_properties_diff
   \<and> (\<exists>a b. find (\<lambda>p. lower (p_name p) = lower ''speed'')
             (rev [example_property ''speed'' ''100'', example_property ''Speed'' ''150'']) = Some a
         \<and> find (\<lambda>p. lower (p_name p) = lower ''speed'') (rev [example_property ''speed'' ''300'']) = Some b
         \<and> ''speed'' = p_name b
         \<and> compare_property a b = Some [(''default_value'', AttrChange (PyStr ''150'') (PyStr ''300''))])
   \<and> compare_properties_cc insertion_order
        [example_property ''speed'' ''100'', example_property ''Speed'' ''150'']
        [example_property ''speed'' ''300''] = Some dup_properties_diff
   \<and> (\<exists>a b. find (\<lambda>p. lower (p_name p) = lower ''speed'')
             (rev [example_property ''speed'' ''100'', example_property ''Speed'' ''150'']) = Some a
         \<and> find (\<lambda>p. lower (p_name p) = lower ''speed'') (rev [example_property ''speed'' ''300'']) = Some b
         \<and> ''speed'' = p_name b
         \<and> compare_property_cc a b = Some [(''default_value'', AttrChange (PyStr ''150'') (PyStr ''300''))])
   \<and> compare_io insertion_order dup_io_old dup_io_new ''input'' = Some dup_io_diff
   \<and> (\<exists>a b. find (\<lambda>p. lower (io_name p) = lower ''OPEN'') (rev dup_io_old) = Some a
         \<and> find (\<lambda>p. lower (io_name p) = lower ''OPEN'') (rev dup_io_new) = Some b
         \<and> ''OPEN'' = io_name b
         \<and> compare_io_item a b = Some [(''description'', PyStr ''Opens'', PyNone)])
   \<and> compare_io_cc insertion_order dup_io_old dup_io_new = Some dup_io_diff
   \<and> (\<exists>a b. find (\<lambda>p. lower (io_name p) = lower ''OPEN'') (rev dup_io_old) = Some a
         \<and> find (\<lambda>p. lower (io_name p) = lower ''OPEN'') (rev dup_io_new) = Some b
         \<and> ''OPEN'' = io_name b
         \<and> compare_io_item_cc a b = Some [(''description'', PyStr ''Opens'', PyNone)])
   \<and> flag_dict [] dup_flags_old = Inr [(1, example_flag ''1'' ''Silent'')]
   \<and> dict_get [(1::int, example_flag ''1'' ''Silent'')] 1 = last_flag 1 dup_flags_old
   \<and> compare_spawnflags insertion_order dup_flags_old dup_flags_new =
        Inr (Some \<lparr>new = [], removed = [],
                   modified = [(''1'', [(''display_name'', PyStr ''Silent'', PyStr ''Quiet'')])]\<rparr>)
   \<and> (\<exists>v a b. ''1'' = str_int v \<and> last_flag v dup_flags_old = Some a
         \<and> last_flag v dup_flags_new = Some b
         \<and> compare_spawnflag a b = Some [(''display_name'', PyStr ''Silent'', PyStr ''Quiet'')])
   \<and> snd (compare_spawnflags_cc insertion_order dup_flags_old dup_flags_new) =
        Some [(''modified'',
               Changes [(''1 (Quiet)'', [(''display_name'', PyStr ''Silent'', PyStr ''Quiet'')])])]
   \<and> (\<exists>v i. i < length (flags_with v dup_flags_old) \<and> i < length (flags_with v dup_flags_new)
         \<and> compare_spawnflag (flags_with v dup_flags_old ! i) (flags_with v dup_flags_new ! i)
              = Some [(''display_name'', PyStr ''Silent'', PyStr ''Quiet'')]
         \<and> ''1 (Quiet)'' = flag_label v (flags_with v dup_flags_new ! i))"
proof -
  note t = duplicates_raise_no_error [OF valid_iter_insertion_order, where A = dup_c and B = dup_b
      and css_props = "[example_property ''speed'' ''100'', example_property ''Speed'' ''150'']"
      and csgo_props = "[example_property ''speed'' ''300'']"
      and css_io = dup_io_old and csgo_io = dup_io_new and io_type = "''input''"
      and css_flags = dup_flags_old and csgo_flags = dup_flags_new and label = "''''"]
  have ia: "list_all integer_flags (entities dup_c)" by code_simp
  have ib: "list_all integer_flags (entities dup_b)" by code_simp
  have e: "compare_fgds insertion_order dup_c dup_b = Inr dup_report"
    by code_simp
  have m: "(''x'', dup_entity_diff) \<in> set (modified_entities dup_report)"
    by (simp add: dup_report_def)
  have ec: "compare_fgds_cc insertion_order dup_c dup_b = Inr ([], dup_report_cc)"
    by code_simp
  have mc: "(''x'', dup_entity_diff_cc) \<in> set (modified_entities_cc dup_report_cc)"
    by (simp add: dup_report_cc_def)
  have p: "compare_properties insertion_order
        [example_property ''speed'' ''100'', example_property ''Speed'' ''150'']
        [example_property ''speed'' ''300''] = Some dup_properties_diff"
    by code_simp
  have pc: "compare_properties_cc insertion_order
        [example_property ''speed'' ''100'', example_property ''Speed'' ''150'']
        [example_property ''speed'' ''300''] = Some dup_properties_diff"
    by code_simp
  have pm: "(''speed'', [(''default_value'', AttrChange (PyStr ''150'') (PyStr ''300''))])
      \<in> set (modified dup_properties_diff)"
    by (simp add: dup_properties_diff_def)
  have io: "compare_io insertion_order dup_io_old dup_io_new ''input'' = Some dup_io_diff"
    by code_simp
  have ioc: "compare_io_cc insertion_order dup_io_old dup_io_new = Some dup_io_diff"
    by code_simp
  have iom: "(''OPEN'', [(''description'', PyStr ''Opens'', PyNone)]) \<in> set (modified dup_io_diff)"
    by (simp add: dup_io_diff_def)
  have f: "flag_dict [] dup_flags_old = Inr [(1, example_flag ''1'' ''Silent'')]"
    by code_simp
  have sf: "compare_spawnflags insertion_order dup_flags_old dup_flags_new =
        Inr (Some \<lparr>new = [], removed = [],
                   modified = [(''1'', [(''display_name'', PyStr ''Silent'', PyStr ''Quiet'')])]\<rparr>)"
    by code_simp
  have sfm0: "(''1'', [(''display_name'', PyStr ''Silent'', PyStr ''Quiet'')])
      \<in> set (modified \<lparr>new = [], removed = [],
                   modified = [(''1'', [(''display_name'', PyStr ''Silent'', PyStr ''Quiet'')])]\<rparr>)"
    by simp
  have sfc: "snd (compare_spawnflags_cc insertion_order dup_flags_old dup_flags_new) =
        Some [(''modified'',
               Changes [(''1 (Quiet)'', [(''display_name'', PyStr ''Silent'', PyStr ''Quiet'')])])]"
    by code_simp
  have sfm: "(''1 (Quiet)'', [(''display_name'', PyStr ''Silent'', PyStr ''Quiet'')])
      \<in> set (modified_of (snd (compare_spawnflags_cc insertion_order dup_flags_old dup_flags_new)))"
    unfolding sfc by (simp add: modified_of_def dict_get_def)
  from t have 1: "\<exists>out r. compare_fgds_cc insertion_order dup_c dup_b = Inr (out, r)"
    by (elim conjE)
  from t have "list_all integer_flags (entities dup_c) \<and> list_all integer_flags (entities dup_b) \<longrightarrow>
         (\<exists>r. compare_fgds insertion_order dup_c dup_b = Inr r)"
    by (elim conjE)
  with ia ib have 2: "\<exists>r. compare_fgds insertion_order dup_c dup_b = Inr r"
    by simp
  from t have "\<forall>r k ed. compare_fgds insertion_order dup_c dup_b = Inr r \<longrightarrow>
         ((k, ed) \<in> set (modified_entities r) \<longleftrightarrow>
          (\<exists>a b. find (\<lambda>e. lower (e_name e) = lower k) (entities dup_c) = Some a
             \<and> find (\<lambda>e. lower (e_name e) = lower k) (entities dup_b) = Some b
             \<and> k = e_name b \<and> compare_entity insertion_order a b = Inr ed \<and> has_keys ed))"
    by (elim conjE)
  from this [rule_format, OF e, THEN iffD1, OF m] have 3: "\<exists>a b. find (\<lambda>e. lower (e_name e) = lower ''x'') (entities dup_c) = Some a
         \<and> find (\<lambda>e. lower (e_name e) = lower ''x'') (entities dup_b) = Some b
         \<and> ''x'' = e_name b \<and> compare_entity insertion_order a b = Inr dup_entity_diff
         \<and> has_keys dup_entity_diff"
    .
  from t have "\<forall>out r k ed. compare_fgds_cc insertion_order dup_c dup_b = Inr (out, r) \<longrightarrow>
         ((k, ed) \<in> set (modified_entities_cc r) \<longleftrightarrow>
          (\<exists>a b. find (\<lambda>e. lower (e_name e) = lower k) (entities dup_c) = Some a
             \<and> find (\<lambda>e. lower (e_name e) = lower k) (entities dup_b) = Some b
             \<and> k = e_name b \<and> snd (compare_entity_cc insertion_order a b) = ed \<and> has_keys_cc ed))"
    by (elim conjE)
  from this [rule_format, OF ec, THEN iffD1, OF mc] have 4: "\<exists>a b. find (\<lambda>e. lower (e_name e) = lower ''x'') (entities dup_c) = Some a
         \<and> find (\<lambda>e. lower (e_name e) = lower ''x'') (entities dup_b) = Some b
         \<and> ''x'' = e_name b \<and> snd (compare_entity_cc insertion_order a b) = dup_entity_diff_cc
         \<and> has_keys_cc dup_entity_diff_cc"
    .
  from t have "\<forall>d k pd. compare_properties insertion_order
        [example_property ''speed'' ''100'', example_property ''Speed'' ''150'']
        [example_property ''speed'' ''300''] = Some d \<longrightarrow>
         ((k, pd) \<in> set (modified d) \<longleftrightarrow>
          (\<exists>a b. find (\<lambda>p. lower (p_name p) = lower k)
                (rev [example_property ''speed'' ''100'', example_property ''Speed'' ''150'']) = Some a
             \<and> find (\<lambda>p. lower (p_name p) = lower k) (rev [example_property ''speed'' ''300'']) = Some b
             \<and> k = p_name b \<and> compare_property a b = Some pd))"
    by (elim conjE)
  from this [rule_format, OF p, THEN iffD1, OF pm] have 5: "\<exists>a b. find (\<lambda>p. lower (p_name p) = lower ''speed'')
             (rev [example_property ''speed'' ''100'', example_property ''Speed'' ''150'']) = Some a
         \<and> find (\<lambda>p. lower (p_name p) = lower ''speed'') (rev [example_property ''speed'' ''300'']) = Some b
         \<and> ''speed'' = p_name b
         \<and> compare_property a b = Some [(''default_value'', AttrChange (PyStr ''150'') (PyStr ''300''))]"
    .
  from t have "\<forall>d k pd. compare_properties_cc insertion_order
        [example_property ''speed'' ''100'', example_property ''Speed'' ''150'']
        [example_property ''speed'' ''300''] = Some d \<longrightarrow>
         ((k, pd) \<in> set (modified d) \<longleftrightarrow>
          (\<exists>a b. find (\<lambda>p. lower (p_name p) = lower k)
                (rev [example_property ''speed'' ''100'', example_property ''Speed'' ''150'']) = Some a
             \<and> find (\<lambda>p. lower (p_name p) = lower k) (rev [example_property ''speed'' ''300'']) = Some b
             \<and> k = p_name b \<and> compare_property_cc a b = Some pd))"
    by (elim conjE)
  from this [rule_format, OF pc, THEN iffD1, OF pm] have 6: "\<exists>a b. find (\<lambda>p. lower (p_name p) = lower ''speed'')
             (rev [example_property ''speed'' ''100'', example_property ''Speed'' ''150'']) = Some a
         \<and> find (\<lambda>p. lower (p_name p) = lower ''speed'') (rev [example_property ''speed'' ''300'']) = Some b
         \<and> ''speed'' = p_name b
         \<and> compare_property_cc a b = Some [(''default_value'', AttrChange (PyStr ''150'') (PyStr ''300''))]"
    .
  from t have "\<forall>d k pd. compare_io insertion_order dup_io_old dup_io_new ''input'' = Some d \<longrightarrow>
         ((k, pd) \<in> set (modified d) \<longleftrightarrow>
          (\<exists>a b. find (\<lambda>p. lower (io_name p) = lower k) (rev dup_io_old) = Some a
             \<and> find (\<lambda>p. lower (io_name p) = lower k) (rev dup_io_new) = Some b
             \<and> k = io_name b \<and> compare_io_item a b = Some pd))"
    by (elim conjE)
  from this [rule_format, OF io, THEN iffD1, OF iom] have 7: "\<exists>a b. find (\<lambda>p. lower (io_name p) = lower ''OPEN'') (rev dup_io_old) = Some a
         \<and> find (\<lambda>p. lower (io_name p) = lower ''OPEN'') (rev dup_io_new) = Some b
         \<and> ''OPEN'' = io_name b
         \<and> compare_io_item a b = Some [(''description'', PyStr ''Opens'', PyNone)]"
    .
  from t have "\<forall>d k pd. compare_io_cc insertion_order dup_io_old dup_io_new = Some d \<longrightarrow>
         ((k, pd) \<in> set (modified d) \<longleftrightarrow>
          (\<exists>a b. find (\<lambda>p. lower (io_name p) = lower k) (rev dup_io_old) = Some a
             \<and> find (\<lambda>p. lower (io_name p) = lower k) (rev dup_io_new) = Some b
             \<and> k = io_name b \<and> compare_io_item_cc a b = Some pd))"
    by (elim conjE)
  from this [rule_format, OF ioc, THEN iffD1, OF iom] have 8: "\<exists>a b. find (\<lambda>p. lower (io_name p) = lower ''OPEN'') (rev dup_io_old) = Some a
         \<and> find (\<lambda>p. lower (io_name p) = lower ''OPEN'') (rev dup_io_new) = Some b
         \<and> ''OPEN'' = io_name b
         \<and> compare_io_item_cc a b = Some [(''description'', PyStr ''Opens'', PyNone)]"
    .
  from t have "\<forall>d v. flag_dict [] dup_flags_old = Inr d \<longrightarrow> dict_get d v = last_flag v dup_flags_old"
    by (elim conjE)
  from this [rule_format, OF f] have 9: "dict_get [(1::int, example_flag ''1'' ''Silent'')] 1 = last_flag 1 dup_flags_old"
    .
  from t have "\<forall>d. compare_spawnflags insertion_order dup_flags_old dup_flags_new = Inr (Some d) \<longrightarrow>
         (\<forall>b. b \<in> set (new d) \<longleftrightarrow>
            (\<exists>v. last_flag v dup_flags_old = None \<and> last_flag v dup_flags_new = Some b))
         \<and> (\<forall>a. a \<in> set (removed d) \<longleftrightarrow>
            (\<exists>v. last_flag v dup_flags_old = Some a \<and> last_flag v dup_flags_new = None))
         \<and> (\<forall>k. k \<in> fst ` set (modified d) \<longleftrightarrow>
            (\<exists>v a b. k = str_int v \<and> last_flag v dup_flags_old = Some a
               \<and> last_flag v dup_flags_new = Some b \<and> compare_spawnflag a b \<noteq> None))
         \<and> (\<forall>k fd. (k, fd) \<in> set (modified d) \<longrightarrow>
            (\<exists>v a b. k = str_int v \<and> last_flag v dup_flags_old = Some a
               \<and> last_flag v dup_flags_new = Some b \<and> compare_spawnflag a b = Some fd))"
    by (elim conjE)
  from this [rule_format, OF sf, THEN conjunct2, THEN conjunct2, THEN conjunct2, rule_format, OF sfm0]
  have 10: "\<exists>v a b. ''1'' = str_int v \<and> last_flag v dup_flags_old = Some a
         \<and> last_flag v dup_flags_new = Some b
         \<and> compare_spawnflag a b = Some [(''display_name'', PyStr ''Silent'', PyStr ''Quiet'')]"
    .
  from t have "\<forall>l fd. (l, fd) \<in> set (modified_of (snd (compare_spawnflags_cc insertion_order
                                                         dup_flags_old dup_flags_new))) \<longrightarrow>
         (\<exists>v i. i < length (flags_with v dup_flags_old) \<and> i < length (flags_with v dup_flags_new)
            \<and> compare_spawnflag (flags_with v dup_flags_old ! i) (flags_with v dup_flags_new ! i) = Some fd
            \<and> l = flag_label v (flags_with v dup_flags_new ! i))"
    by (elim conjE)
  from this [rule_format, OF sfm] have 11: "\<exists>v i. i < length (flags_with v dup_flags_old) \<and> i < length (flags_with v dup_flags_new)
         \<and> compare_spawnflag (flags_with v dup_flags_old ! i) (flags_with v dup_flags_new ! i)
              = Some [(''display_name'', PyStr ''Silent'', PyStr ''Quiet'')]
         \<and> ''1 (Quiet)'' = flag_label v (flags_with v dup_flags_new ! i)"
    .
  from 1 ia ib 2 e 3 ec 4 p 5 pc 6 io 7 ioc 8 f 9 sf 10 sfc 11 show ?thesis by (intro conjI)
qed

text \<open>
  The claim as stated fails: the old schema below has a second entity \<^verbatim>\<open>X\<close>, a first
  property \<^verbatim>\<open>speed\<close> and a first flag of value 1 that all differ from the new schema,
  and the run returns the empty report.
\<close>

theorem duplicates_silently_dropped:
  "compare_fgds insertion_order dup_a dup_b =
     Inr \<lparr>new_entities = [], removed_entities = [], modified_entities = [],
          backward_porting_issues = []\<rparr>"
  by code_simp

end
